theory Spec2Isabelle
  imports Main "HOL-Library.AList" "HOL-Library.Monad_Syntax"
begin

section \<open>JavaScript values and objects\<close>

text \<open>
  The services are JavaScript (Express). A request body, a parsed device and a registry
  entry are plain objects whose set of keys changes from handler to handler, so an object
  is an association list in key insertion order and a value is one of the JSON shapes.
  A number is given by the text that \<open>Number.prototype.toString\<close> prints for it
  (\<open>5\<close>, \<open>0.5\<close>, \<open>1e+21\<close>): this text is what a template literal shows, two
  numbers are the same key of a \<open>Map\<close> exactly when they print alike, and the falsy
  numbers are the ones that print \<open>0\<close> and \<open>NaN\<close>. Strings are lists of code
  units below 256.
\<close>

datatype jsval =
    JUndefined
  | JNull
  | JBool bool
  | JNum string
  | JStr string
  | JArr "jsval list"
  | JObj "(string \<times> jsval) list"

type_synonym jsobj = "(string \<times> jsval) list"

text \<open>The exceptions the modelled code can raise, each with its message as V8 words it.\<close>

datatype exn = TypeError string

text \<open>\<open>!v\<close> is \<open>\<not> truthy v\<close>.\<close>

fun truthy :: "jsval \<Rightarrow> bool" where
  "truthy JUndefined = False"
| "truthy JNull = False"
| "truthy (JBool b) = b"
| "truthy (JNum t) = (t \<noteq> ''0'' \<and> t \<noteq> ''NaN'')"
| "truthy (JStr s) = (s \<noteq> [])"
| "truthy (JArr xs) = True"
| "truthy (JObj kvs) = True"

text \<open>\<open>o.k\<close>: the value under a key, \<open>undefined\<close> when the key is absent.\<close>

definition obj_get :: "jsobj \<Rightarrow> string \<Rightarrow> jsval" where
  "obj_get ob k = (case map_of ob k of None \<Rightarrow> JUndefined | Some v \<Rightarrow> v)"

text \<open>
  \<open>o.k = v\<close>, and one more property in an object literal after a spread
  (\<open>{...o, k: v}\<close>): an existing key keeps its position, a new key goes last.
\<close>

definition obj_set :: "jsobj \<Rightarrow> string \<Rightarrow> jsval \<Rightarrow> jsobj" where
  "obj_set ob k v = AList.update k v ob"

definition has_key :: "jsobj \<Rightarrow> string \<Rightarrow> bool" where
  "has_key ob k = (k \<in> fst ` set ob)"

section \<open>String operations of the parsers\<close>

text \<open>White space of \<open>String.prototype.trim\<close> and of \<open>\s\<close>, among code units below 256.\<close>

definition is_space :: "char \<Rightarrow> bool" where
  "is_space c = (c \<in> set [CHR 0x09, CHR 0x0A, CHR 0x0B, CHR 0x0C, CHR 0x0D, CHR 0x20, CHR 0xA0])"

definition is_digit :: "char \<Rightarrow> bool" where
  "is_digit c = (c \<in> set ''0123456789'')"

definition is_hex :: "char \<Rightarrow> bool" where
  "is_hex c = (c \<in> set ''0123456789abcdefABCDEF'')"

definition is_word :: "char \<Rightarrow> bool" where
  "is_word c = (c \<in> set ''ABCDEFGHIJKLMNOPQRSTUVWXYZabcdefghijklmnopqrstuvwxyz0123456789_'')"

definition trim :: "string \<Rightarrow> string" where
  "trim s = rev (dropWhile is_space (rev (dropWhile is_space s)))"

definition upper_lower :: "(char \<times> char) list" where
  "upper_lower = zip ''ABCDEFGHIJKLMNOPQRSTUVWXYZ'' ''abcdefghijklmnopqrstuvwxyz''"

definition to_lower :: "char \<Rightarrow> char" where
  "to_lower c = (case map_of upper_lower c of Some l \<Rightarrow> l
     | None \<Rightarrow> (let n = (of_char c :: nat) in
         if 192 \<le> n \<and> n \<le> 222 \<and> n \<noteq> 215 then char_of (n + 32) else c))"

definition toLowerCase :: "string \<Rightarrow> string" where
  "toLowerCase s = map to_lower s"

definition startsWith :: "string \<Rightarrow> string \<Rightarrow> bool" where
  "startsWith s p = (take (length p) s = p)"

text \<open>\<open>s.includes(sub)\<close>.\<close>

fun includes_str :: "string \<Rightarrow> string \<Rightarrow> bool" where
  "includes_str [] sub = (sub = [])"
| "includes_str (c # cs) sub = (startsWith (c # cs) sub \<or> includes_str cs sub)"

text \<open>\<open>s.indexOf(c)\<close> for a one-character argument; \<open>None\<close> is \<open>-1\<close>.\<close>

definition indexOf :: "string \<Rightarrow> char \<Rightarrow> nat option" where
  "indexOf s c = (if c \<in> set s then Some (length (takeWhile (\<lambda>x. x \<noteq> c) s)) else None)"

text \<open>\<open>s.split(c)\<close> for a one-character separator.\<close>

fun split_char :: "char \<Rightarrow> string \<Rightarrow> string list" where
  "split_char c [] = [[]]"
| "split_char c (x # xs) =
     (if x = c then [] # split_char c xs
      else (case split_char c xs of [] \<Rightarrow> [[x]] | p # ps \<Rightarrow> (x # p) # ps))"

lemma take_eq_shorter:
  "sep \<noteq> [] \<Longrightarrow> take (length sep) s = sep \<Longrightarrow> length s - length sep < length s"
  by (cases s) auto

text \<open>\<open>s.split(sep)\<close> for a separator string: the leftmost occurrences, not overlapping.\<close>

function split_str :: "string \<Rightarrow> string \<Rightarrow> string list" where
  "split_str sep s =
     (if sep = [] then map (\<lambda>c. [c]) s
      else if startsWith s sep then [] # split_str sep (drop (length sep) s)
      else (case s of [] \<Rightarrow> [[]]
            | c # cs \<Rightarrow> (case split_str sep cs of [] \<Rightarrow> [[c]] | p # ps \<Rightarrow> (c # p) # ps)))"
  by pat_completeness auto
termination
  by (relation "measure (\<lambda>(sep, s). length s)") (auto simp: take_eq_shorter startsWith_def)

declare split_str.simps [simp del]

text \<open>\<open>parts.join(sep)\<close>.\<close>

fun join :: "string \<Rightarrow> string list \<Rightarrow> string" where
  "join sep [] = []"
| "join sep [p] = p"
| "join sep (p # q # ps) = p @ sep @ join sep (q # ps)"

text \<open>\<open>n.toString()\<close> for a non-negative integer.\<close>

definition digit_char :: "nat \<Rightarrow> char" where
  "digit_char d = ''0123456789'' ! d"

fun toString :: "nat \<Rightarrow> string" where
  "toString n = (if n < 10 then [digit_char n] else toString (n div 10) @ [digit_char (n mod 10)])"

declare toString.simps [simp del]

subsection \<open>The two regular expressions\<close>

text \<open>
  One regular-expression atom each, on the rest of the input: a literal character, a
  class repeated one or more times, a class repeated zero or more times. In both
  expressions of the source the character after a repeated class is outside the class,
  so the greedy run is the only way to match and no backtracking is involved.
\<close>

definition lit :: "char \<Rightarrow> string \<Rightarrow> string option" where
  "lit c s = (case s of [] \<Rightarrow> None | x # xs \<Rightarrow> if x = c then Some xs else None)"

definition many1 :: "(char \<Rightarrow> bool) \<Rightarrow> string \<Rightarrow> string option" where
  "many1 p s = (case s of [] \<Rightarrow> None | x # xs \<Rightarrow> if p x then Some (dropWhile p xs) else None)"

definition many0 :: "(char \<Rightarrow> bool) \<Rightarrow> string \<Rightarrow> string option" where
  "many0 p s = Some (dropWhile p s)"

text \<open>
  \<open>/\[\d+\.\d+\]\s*\[\d+:\d+\]\s*\[\w+\]\s*/\<close> at the head of the input: the rest
  after the match.
\<close>

definition matchLogPrefix :: "string \<Rightarrow> string option" where
  "matchLogPrefix s =
     lit CHR ''['' s \<bind> many1 is_digit \<bind> lit CHR ''.'' \<bind> many1 is_digit \<bind> lit CHR '']''
       \<bind> many0 is_space
       \<bind> lit CHR ''['' \<bind> many1 is_digit \<bind> lit CHR '':'' \<bind> many1 is_digit \<bind> lit CHR '']''
       \<bind> many0 is_space
       \<bind> lit CHR ''['' \<bind> many1 is_word \<bind> lit CHR '']''
       \<bind> many0 is_space"

text \<open>\<open>line.replace(/.../, '')\<close> without the \<open>g\<close> flag: the leftmost match is removed.\<close>

fun stripLogPrefix :: "string \<Rightarrow> string" where
  "stripLogPrefix [] = []"
| "stripLogPrefix (c # cs) =
     (case matchLogPrefix (c # cs) of Some rest \<Rightarrow> rest | None \<Rightarrow> c # stripLogPrefix cs)"

text \<open>\<open>/\x1b\[[0-9;]*m/\<close> at the head of the input: the rest after the match.\<close>

definition ESC :: char where
  "ESC = CHR 0x1B"

definition is_sgr_param :: "char \<Rightarrow> bool" where
  "is_sgr_param c = (c \<in> set ''0123456789;'')"

definition matchAnsi :: "string \<Rightarrow> string option" where
  "matchAnsi s = lit ESC s \<bind> lit CHR ''['' \<bind> many0 is_sgr_param \<bind> lit CHR ''m''"

lemma matchAnsi_shorter: "matchAnsi s = Some rest \<Longrightarrow> length rest < length s"
proof -
  have dw: "length (dropWhile p xs) \<le> length xs" for p and xs :: string
    by (induction xs) auto
  assume "matchAnsi s = Some rest"
  then obtain a where s: "s = ESC # CHR ''['' # a" and b: "dropWhile is_sgr_param a = CHR ''m'' # rest"
    by (auto simp: matchAnsi_def lit_def many0_def split: list.splits if_splits)
  have "length (dropWhile is_sgr_param a) \<le> length a" by (rule dw)
  with s b show ?thesis by simp
qed

text \<open>\<open>str.replace(/\x1b\[[0-9;]*m/g, '')\<close>: one pass, left to right.\<close>

function removeAnsiEscapes :: "string \<Rightarrow> string" where
  "removeAnsiEscapes s =
     (case s of [] \<Rightarrow> []
      | c # cs \<Rightarrow> (case matchAnsi s of Some rest \<Rightarrow> removeAnsiEscapes rest
                   | None \<Rightarrow> c # removeAnsiEscapes cs))"
  by pat_completeness auto
termination
  by (relation "measure length") (auto dest: matchAnsi_shorter)

declare removeAnsiEscapes.simps [simp del]

text \<open>A string holds a colour escape sequence when the expression matches somewhere in it.\<close>

fun containsAnsi :: "string \<Rightarrow> bool" where
  "containsAnsi [] = False"
| "containsAnsi (c # cs) = (matchAnsi (c # cs) \<noteq> None \<or> containsAnsi cs)"

section \<open>Values inside template literals\<close>

text \<open>
  \<open>`${v}`\<close> converts \<open>v\<close> to a string. An object is asked for its \<open>toString\<close>
  method. An object read from JSON holds no function, so one with a key \<open>toString\<close> of
  its own has no callable \<open>toString\<close>, the inherited \<open>valueOf\<close> gives the object
  back (and a \<open>valueOf\<close> of its own is not callable either), and the conversion raises;
  every other object prints as \<open>[object Object]\<close>. An array joins the conversions of
  its elements with commas, \<open>undefined\<close> and \<open>null\<close> counting as empty, and raises
  when one of them does.
\<close>

definition msg_not_primitive :: string where
  "msg_not_primitive = ''Cannot convert object to primitive value''"

text \<open>The results of computations run one after the other, up to the first that raises.\<close>

fun collect :: "(exn + 'a) list \<Rightarrow> exn + 'a list" where
  "collect [] = Inr []"
| "collect (m # ms) =
     (case m of
        Inl ex \<Rightarrow> Inl ex
      | Inr x \<Rightarrow> (case collect ms of Inl ex \<Rightarrow> Inl ex | Inr xs \<Rightarrow> Inr (x # xs)))"

fun js_toString :: "jsval \<Rightarrow> exn + string" where
  "js_toString JUndefined = Inr ''undefined''"
| "js_toString JNull = Inr ''null''"
| "js_toString (JBool b) = Inr (if b then ''true'' else ''false'')"
| "js_toString (JNum t) = Inr t"
| "js_toString (JStr s) = Inr s"
| "js_toString (JArr xs) =
     (case collect (map (\<lambda>x. if x = JUndefined \<or> x = JNull then Inr [] else js_toString x) xs) of
        Inl ex \<Rightarrow> Inl ex
      | Inr parts \<Rightarrow> Inr (join '','' parts))"
| "js_toString (JObj kvs) =
     (if has_key kvs ''toString'' then Inl (TypeError msg_not_primitive)
      else Inr ''[object Object]'')"

text \<open>The values interpolated into one template literal, converted from left to right.\<close>

definition interpolate :: "jsval list \<Rightarrow> exn + string list" where
  "interpolate vs = collect (map js_toString vs)"

section \<open>The discovery parser\<close>

text \<open>
  \<open>parseDiscoveryResult\<close> exists in two variants. Variant A is the one in
  \<^verbatim>\<open>src/unnamed/part_002\<close> (lines 186 to 292), the service with the
  \<open>/api/device/pair\<close> and \<open>/api/device/commission\<close> endpoints: it strips the log
  prefix of each line and compares whole lines. Variant B is the one in
  \<^verbatim>\<open>src/matterServer/server.js\<close> (lines 762 to 872), the service with the
  \<open>/api/device/setup\<close> endpoint: it keeps only the lines tagged \<open>[DIS]\<close>, strips
  colour escapes and searches inside lines.

  The loop state is the pair of \<open>devices\<close> and \<open>currentDevice\<close> (\<open>None\<close> for
  \<open>null\<close>). A pushed device is never written again, because \<open>currentDevice\<close> is
  bound to a new object right after the push.
\<close>

type_synonym pstate = "jsobj list \<times> jsobj option"

definition marker :: string where
  "marker = ''Discovered commissionable/commissioner node:''"

text \<open>
  \<open>currentDevice.addresses.push(address)\<close>; calling \<open>push\<close> on anything but an
  array raises.
\<close>

definition msg_push_undefined :: string where
  "msg_push_undefined = ''Cannot read properties of undefined (reading 'push')''"

definition msg_push_null :: string where
  "msg_push_null = ''Cannot read properties of null (reading 'push')''"

definition msg_push_not_function :: string where
  "msg_push_not_function = ''currentDevice.addresses.push is not a function''"

definition push_address :: "jsobj \<Rightarrow> string \<Rightarrow> exn + jsobj" where
  "push_address d address =
     (case obj_get d ''addresses'' of
        JArr xs \<Rightarrow> Inr (obj_set d ''addresses'' (JArr (xs @ [JStr address])))
      | JUndefined \<Rightarrow> Inl (TypeError msg_push_undefined)
      | JNull \<Rightarrow> Inl (TypeError msg_push_null)
      | _ \<Rightarrow> Inl (TypeError msg_push_not_function))"

fun scanLines :: "(pstate \<Rightarrow> string \<Rightarrow> exn + pstate) \<Rightarrow> pstate \<Rightarrow> string list \<Rightarrow> exn + pstate" where
  "scanLines step st [] = Inr st"
| "scanLines step st (line # lines) =
     (case step st line of Inl e \<Rightarrow> Inl e | Inr st' \<Rightarrow> scanLines step st' lines)"

text \<open>After the loop: \<open>if (currentDevice) devices.push(currentDevice)\<close>.\<close>

fun pushCurrent :: "pstate \<Rightarrow> jsobj list" where
  "pushCurrent (devices, None) = devices"
| "pushCurrent (devices, Some d) = devices @ [d]"

subsection \<open>Variant A\<close>

definition cleanLine_A :: "string \<Rightarrow> string" where
  "cleanLine_A line = trim (stripLogPrefix line)"

definition extractValue_A :: "string \<Rightarrow> string" where
  "extractValue_A line =
     (case indexOf line CHR '':'' of
        None \<Rightarrow> []
      | Some colonIndex \<Rightarrow> trim (drop (colonIndex + 1) line))"

definition freshDevice_A :: jsobj where
  "freshDevice_A =
     [(''name'', JStr []),
      (''addresses'', JArr []),
      (''port'', JStr []),
      (''vendorId'', JStr []),
      (''productId'', JStr []),
      (''deviceType'', JStr []),
      (''discriminator'', JStr []),
      (''pairingHint'', JStr []),
      (''instanceName'', JStr []),
      (''commissioningMode'', JStr []),
      (''supportsCommissionerGeneratedPasscode'', JBool False)]"

definition fieldLine_A :: "jsobj \<Rightarrow> string \<Rightarrow> exn + jsobj" where
  "fieldLine_A d cleanedLine =
     (if startsWith cleanedLine ''Hostname:'' then
        Inr (obj_set d ''name'' (JStr (extractValue_A cleanedLine)))
      else if startsWith cleanedLine ''IP Address #'' then
        (let address = extractValue_A cleanedLine
         in if address \<noteq> [] then push_address d address else Inr d)
      else if startsWith cleanedLine ''Port:'' then
        Inr (obj_set d ''port'' (JStr (extractValue_A cleanedLine)))
      else if startsWith cleanedLine ''Vendor ID:'' then
        Inr (obj_set d ''vendorId'' (JStr (extractValue_A cleanedLine)))
      else if startsWith cleanedLine ''Product ID:'' then
        Inr (obj_set d ''productId'' (JStr (extractValue_A cleanedLine)))
      else if startsWith cleanedLine ''Device Type:'' then
        Inr (obj_set d ''deviceType'' (JStr (extractValue_A cleanedLine)))
      else if startsWith cleanedLine ''Long Discriminator:'' then
        Inr (obj_set d ''discriminator'' (JStr (extractValue_A cleanedLine)))
      else if startsWith cleanedLine ''Pairing Hint:'' then
        Inr (obj_set d ''pairingHint'' (JStr (extractValue_A cleanedLine)))
      else if startsWith cleanedLine ''Instance Name:'' then
        Inr (obj_set d ''instanceName'' (JStr (extractValue_A cleanedLine)))
      else if startsWith cleanedLine ''Commissioning Mode:'' then
        Inr (obj_set d ''commissioningMode'' (JStr (extractValue_A cleanedLine)))
      else if startsWith cleanedLine ''Supports Commissioner Generated Passcode:'' then
        Inr (obj_set d ''supportsCommissionerGeneratedPasscode''
               (JBool (toLowerCase (extractValue_A cleanedLine) = ''true'')))
      else Inr d)"

fun step_A :: "pstate \<Rightarrow> string \<Rightarrow> exn + pstate" where
  "step_A (devices, currentDevice) line =
     (let cleanedLine = cleanLine_A line
      in if cleanedLine = marker then Inr (pushCurrent (devices, currentDevice), Some freshDevice_A)
         else (case currentDevice of
                 None \<Rightarrow> Inr (devices, None)
               | Some d \<Rightarrow> (case fieldLine_A d cleanedLine of
                             Inl e \<Rightarrow> Inl e
                           | Inr d' \<Rightarrow> Inr (devices, Some d'))))"

text \<open>
  \<open>devices.map((device, index) => ({...device, nodeId: (index + 1).toString(),
  type: 'wifi'}))\<close>.
\<close>

definition assignNodeIds_A :: "jsobj list \<Rightarrow> jsobj list" where
  "assignNodeIds_A devices =
     map (\<lambda>(index, device).
            obj_set (obj_set device ''nodeId'' (JStr (toString (index + 1)))) ''type'' (JStr ''wifi''))
         (enumerate 0 devices)"

text \<open>
  The body of the \<open>try\<close> block; \<open>result.trim()\<close> raises on a value that is not a
  string: a number, \<open>true\<close> and an array have no \<open>trim\<close>, and an object read from
  JSON has no callable one.
\<close>

definition msg_trim_not_function :: string where
  "msg_trim_not_function = ''result.trim is not a function''"

definition tryBlock_A :: "jsval \<Rightarrow> exn + jsobj list" where
  "tryBlock_A result =
     (if \<not> truthy result then Inr []
      else (case result of
              JStr s \<Rightarrow>
                (if trim s = [] then Inr []
                 else (case scanLines step_A ([], None) (split_char CHR 0x0A s) of
                         Inl e \<Rightarrow> Inl e
                       | Inr st \<Rightarrow> Inr (assignNodeIds_A (pushCurrent st))))
            | _ \<Rightarrow> Inl (TypeError msg_trim_not_function)))"

text \<open>
  The whole function: what the caller observes is a returned array (\<open>Inr\<close>) or an
  exception (\<open>Inl\<close>). The \<open>catch\<close> clause writes the message of the exception to
  the log and returns \<open>[]\<close>.
\<close>

definition parseDiscoveryResult_A :: "jsval \<Rightarrow> exn + jsobj list" where
  "parseDiscoveryResult_A result =
     (case tryBlock_A result of Inl e \<Rightarrow> Inr [] | Inr devices \<Rightarrow> Inr devices)"

subsection \<open>Variant B\<close>

definition extractValue_B :: "string \<Rightarrow> string \<Rightarrow> string" where
  "extractValue_B line key =
     (case split_str (key @ '':'') line of
        p0 # p1 # ps \<Rightarrow> removeAnsiEscapes (trim p1)
      | _ \<Rightarrow> [])"

text \<open>
  \<open>cleanLine.split('IP Address #')[1].split(':').slice(1).join(':').trim()\<close>; taking
  \<open>[1]\<close> of a one-element array gives \<open>undefined\<close>, and \<open>.split\<close> on it raises.
\<close>

definition msg_split_undefined :: string where
  "msg_split_undefined = ''Cannot read properties of undefined (reading 'split')''"

definition ipAddress_B :: "string \<Rightarrow> exn + string" where
  "ipAddress_B cleanLine =
     (case split_str ''IP Address #'' cleanLine of
        p0 # p1 # ps \<Rightarrow> Inr (trim (join '':'' (tl (split_char CHR '':'' p1))))
      | _ \<Rightarrow> Inl (TypeError msg_split_undefined))"

definition freshDevice_B :: jsobj where
  "freshDevice_B =
     [(''nodeId'', JStr []),
      (''name'', JStr []),
      (''setupPinCode'', JStr []),
      (''setupDiscriminator'', JStr []),
      (''vendorId'', JStr []),
      (''productId'', JStr []),
      (''deviceType'', JStr []),
      (''instanceName'', JStr []),
      (''addresses'', JArr []),
      (''port'', JStr []),
      (''pairingHint'', JStr []),
      (''commissioningMode'', JStr []),
      (''type'', JStr ''wifi'')]"

definition fieldLine_B :: "jsobj \<Rightarrow> string \<Rightarrow> exn + jsobj" where
  "fieldLine_B d cleanLine =
     (if includes_str cleanLine ''Hostname:'' then
        Inr (obj_set d ''name'' (JStr (extractValue_B cleanLine ''Hostname'')))
      else if includes_str cleanLine ''IP Address #'' then
        (case ipAddress_B cleanLine of
           Inl e \<Rightarrow> Inl e
         | Inr address \<Rightarrow>
             if address \<noteq> [] \<and> address \<noteq> ''not present'' then push_address d address
             else Inr d)
      else if includes_str cleanLine ''Port:'' then
        Inr (obj_set d ''port'' (JStr (extractValue_B cleanLine ''Port'')))
      else if includes_str cleanLine ''Long Discriminator:'' then
        Inr (obj_set d ''setupDiscriminator'' (JStr (extractValue_B cleanLine ''Long Discriminator'')))
      else if includes_str cleanLine ''Vendor ID:'' then
        Inr (obj_set d ''vendorId'' (JStr (extractValue_B cleanLine ''Vendor ID'')))
      else if includes_str cleanLine ''Product ID:'' then
        Inr (obj_set d ''productId'' (JStr (extractValue_B cleanLine ''Product ID'')))
      else if includes_str cleanLine ''Device Type:'' then
        Inr (obj_set d ''deviceType'' (JStr (extractValue_B cleanLine ''Device Type'')))
      else if includes_str cleanLine ''Instance Name:'' then
        Inr (obj_set d ''instanceName'' (JStr (extractValue_B cleanLine ''Instance Name'')))
      else if includes_str cleanLine ''Pairing Hint:'' then
        Inr (obj_set d ''pairingHint'' (JStr (extractValue_B cleanLine ''Pairing Hint'')))
      else if includes_str cleanLine ''Commissioning Mode:'' then
        Inr (obj_set d ''commissioningMode'' (JStr (extractValue_B cleanLine ''Commissioning Mode'')))
      else Inr d)"

fun step_B :: "pstate \<Rightarrow> string \<Rightarrow> exn + pstate" where
  "step_B (devices, currentDevice) line =
     (if \<not> includes_str line ''[DIS]'' then Inr (devices, currentDevice)
      else (let cleanLine = removeAnsiEscapes (trim line)
            in if includes_str cleanLine marker
               then Inr (pushCurrent (devices, currentDevice), Some freshDevice_B)
               else (case currentDevice of
                       None \<Rightarrow> Inr (devices, None)
                     | Some d \<Rightarrow> (case fieldLine_B d cleanLine of
                                   Inl e \<Rightarrow> Inl e
                                 | Inr d' \<Rightarrow> Inr (devices, Some d')))))"

text \<open>\<open>devices.map((device, index) => ({...device, nodeId: (index + 1).toString()}))\<close>.\<close>

definition assignNodeIds_B :: "jsobj list \<Rightarrow> jsobj list" where
  "assignNodeIds_B devices =
     map (\<lambda>(index, device). obj_set device ''nodeId'' (JStr (toString (index + 1))))
         (enumerate 0 devices)"

definition tryBlock_B :: "jsval \<Rightarrow> exn + jsobj list" where
  "tryBlock_B result =
     (if \<not> truthy result then Inr []
      else (case result of
              JStr s \<Rightarrow>
                (if trim s = [] then Inr []
                 else (case scanLines step_B ([], None) (split_char CHR 0x0A s) of
                         Inl e \<Rightarrow> Inl e
                       | Inr st \<Rightarrow> Inr (assignNodeIds_B (pushCurrent st))))
            | _ \<Rightarrow> Inl (TypeError msg_trim_not_function)))"

text \<open>
  The \<open>catch\<close> clause of variant B writes two lines to the log before it returns
  \<open>[]\<close>: the message of the exception, and \<open>`...: ${result}`\<close>. The second
  converts the argument to a string, and when that raises, the exception leaves the
  function.
\<close>

definition parseDiscoveryResult_B :: "jsval \<Rightarrow> exn + jsobj list" where
  "parseDiscoveryResult_B result =
     (case tryBlock_B result of
        Inl e \<Rightarrow> (case interpolate [result] of Inl ex \<Rightarrow> Inl ex | Inr logged \<Rightarrow> Inr [])
      | Inr devices \<Rightarrow> Inr devices)"

subsection \<open>The unused network-type helper\<close>

text \<open>\<open>detectDeviceType\<close> is defined next to both variants; neither calls it.\<close>

definition detectDeviceType :: "string \<Rightarrow> string" where
  "detectDeviceType deviceInfo =
     (if includes_str (toLowerCase deviceInfo) ''wifi'' then ''wifi''
      else if includes_str (toLowerCase deviceInfo) ''thread'' then ''thread''
      else ''unknown'')"

section \<open>The request handlers and the device registry\<close>

text \<open>
  The handlers modelled here are \<open>POST /api/pairing/code\<close> and
  \<open>POST /api/commissioning/wifi\<close> of \<^verbatim>\<open>src/matterServer/server.js\<close> (lines
  249 to 336; \<^verbatim>\<open>src/unnamed/part_001\<close> has the same text),
  \<open>POST /api/device/pair\<close>, \<open>POST /api/device/commission\<close> and
  \<open>POST /api/device/search\<close> of \<^verbatim>\<open>src/unnamed/part_002\<close> (lines 315 to 454),
  and \<open>GET /api/device/search\<close> of \<^verbatim>\<open>src/matterServer/server.js\<close> (lines 985
  to 1013).

  \<open>deviceState\<close> is a JavaScript \<open>Map\<close>. Its keys are whatever value the request
  carries as device identifier; an array or an object read from a request body is a new
  object, identical to no key stored before, so only primitive keys are ever found again.
\<close>

type_synonym registry = "(jsval \<times> jsobj) list"

fun is_primitive :: "jsval \<Rightarrow> bool" where
  "is_primitive (JArr xs) = False"
| "is_primitive (JObj kvs) = False"
| "is_primitive v = True"

definition map_get :: "registry \<Rightarrow> jsval \<Rightarrow> jsobj option" where
  "map_get m k = (if is_primitive k then map_of m k else None)"

definition map_set :: "registry \<Rightarrow> jsval \<Rightarrow> jsobj \<Rightarrow> registry" where
  "map_set m k v = (if is_primitive k then AList.update k v m else m @ [(k, v)])"

text \<open>
  \<open>executeMatterCommand\<close> hands a command to the external tool and resolves with its
  standard output or rejects with an error; the tool is a parameter of the model, and so
  are the clock and the two environment variables a handler reads. The state a handler
  can change is the registry; the commands handed to the tool are recorded next to it.
  Writing to the log file changes nothing a handler reads and is left out, but the
  template literal that makes the log line is evaluated before the call, inside the
  \<open>try\<close> block of the handler, and its conversions are part of the model.
\<close>

record exec_error =
  message :: string
  stderr :: "string option"

record env =
  run :: "string \<Rightarrow> exec_error + string"
  now :: string
  WIFI_SSID :: jsval
  WIFI_PASSWORD :: jsval

record state =
  deviceState :: registry
  commands :: "string list"

record response =
  http :: nat
  json :: jsobj

text \<open>A value between double quotes, as the commands carry the SSID and the password.\<close>

definition quoted :: "string \<Rightarrow> string" where
  "quoted s = [CHR 0x22] @ s @ [CHR 0x22]"

text \<open>\<open>a || b\<close>.\<close>

definition js_or :: "jsval \<Rightarrow> jsval \<Rightarrow> jsval" where
  "js_or a b = (if truthy a then a else b)"

text \<open>A destructured field with a default: the default replaces \<open>undefined\<close> only.\<close>

definition field_default :: "jsobj \<Rightarrow> string \<Rightarrow> jsval \<Rightarrow> jsval" where
  "field_default body k d = (if obj_get body k = JUndefined then d else obj_get body k)"

text \<open>\<open>{...target, ...source}\<close>.\<close>

definition spread :: "jsobj \<Rightarrow> jsobj \<Rightarrow> jsobj" where
  "spread target source = fold (\<lambda>(k, v) acc. obj_set acc k v) source target"

definition defaultNodeId :: jsval where
  "defaultNodeId = JStr ''1''"

subsection \<open>Messages\<close>

text \<open>
  The message literals of the source are Korean text. Each one stands here as a named
  constant holding an English rendering; no property below depends on the wording.
\<close>

definition msg_timeout :: string where
  "msg_timeout = ''<the Matter command timed out>''"

definition msg_ble :: string where
  "msg_ble = ''<an error occurred during the BLE connection>''"

definition msg_data_model :: string where
  "msg_data_model = ''<an error occurred while processing the data model>''"

definition msg_command_not_found :: string where
  "msg_command_not_found = ''<the Matter SDK command was not found; check the SDK path>''"

definition msg_sdk_error :: string where
  "msg_sdk_error = ''<a Matter SDK error occurred>''"

definition msg_sdk_error_prefix :: string where
  "msg_sdk_error_prefix = ''<Matter SDK error>: ''"

definition msg_unknown_prefix :: string where
  "msg_unknown_prefix = ''<an unknown error occurred>: ''"

definition msg_setup_code_required :: string where
  "msg_setup_code_required = ''<the setup code is required>''"

definition msg_pairing_done :: string where
  "msg_pairing_done = ''<device pairing complete>''"

definition msg_wifi_required :: string where
  "msg_wifi_required = ''<the Wi-Fi SSID and password are required>''"

definition msg_wifi_done :: string where
  "msg_wifi_done = ''<Wi-Fi setup and commissioning complete>''"

definition msg_matter_code_required :: string where
  "msg_matter_code_required = ''<the Matter setup code is required>''"

definition msg_device_not_found :: string where
  "msg_device_not_found = ''<the device was not found>''"

definition msg_not_paired :: string where
  "msg_not_paired = ''<the device has not completed pairing>''"

definition msg_wifi_missing :: string where
  "msg_wifi_missing = ''<no Wi-Fi information was provided>''"

definition msg_commission_done :: string where
  "msg_commission_done = ''<Wi-Fi commissioning complete>''"

definition msg_search_done :: string where
  "msg_search_done = ''<device search complete>''"

definition msg_search_none :: string where
  "msg_search_none = ''<no device was found>''"

subsection \<open>Classifying a failure of the tool\<close>

definition stderr_includes :: "exec_error \<Rightarrow> string \<Rightarrow> bool" where
  "stderr_includes error sub = (case stderr error of None \<Rightarrow> False | Some t \<Rightarrow> includes_str t sub)"

text \<open>
  \<open>handleMatterError\<close> of the service with \<open>/api/pairing/code\<close>
  (\<^verbatim>\<open>src/matterServer/server.js\<close>, lines 129 to 171).
\<close>

definition handleMatterError_1 :: "exec_error \<Rightarrow> jsobj" where
  "handleMatterError_1 error =
     (if includes_str (message error) ''Timeout'' \<or> stderr_includes error ''Timeout'' then
        [(''code'', JStr ''TIMEOUT_ERROR''), (''message'', JStr msg_timeout)]
      else if includes_str (message error) ''CHIP:BLE'' then
        [(''code'', JStr ''BLE_ERROR''), (''message'', JStr msg_ble)]
      else if includes_str (message error) ''CHIP:DMG'' then
        [(''code'', JStr ''DATA_MODEL_ERROR''), (''message'', JStr msg_data_model)]
      else if includes_str (message error) ''not found'' then
        [(''code'', JStr ''COMMAND_NOT_FOUND''), (''message'', JStr msg_command_not_found)]
      else (case stderr error of
              Some t \<Rightarrow>
                if t \<noteq> [] then
                  [(''code'', JStr ''MATTER_SDK_ERROR''), (''message'', JStr (msg_sdk_error_prefix @ t))]
                else
                  [(''code'', JStr ''UNKNOWN_ERROR''),
                   (''message'', JStr (msg_unknown_prefix @ message error))]
            | None \<Rightarrow>
                [(''code'', JStr ''UNKNOWN_ERROR''),
                 (''message'', JStr (msg_unknown_prefix @ message error))]))"

text \<open>\<open>/CHIP Error (0x[0-9a-fA-F]+)/\<close>: the group of the leftmost match.\<close>

fun matchChipError :: "string \<Rightarrow> string option" where
  "matchChipError [] = None"
| "matchChipError (c # cs) =
     (if startsWith (c # cs) ''CHIP Error 0x''
         \<and> takeWhile is_hex (drop (length ''CHIP Error 0x'') (c # cs)) \<noteq> []
      then Some (''0x'' @ takeWhile is_hex (drop (length ''CHIP Error 0x'') (c # cs)))
      else matchChipError cs)"

text \<open>\<open>error.message || error.stderr || ''\<close>.\<close>

definition message_or_stderr :: "exec_error \<Rightarrow> string" where
  "message_or_stderr error =
     (if message error \<noteq> [] then message error
      else (case stderr error of Some t \<Rightarrow> t | None \<Rightarrow> []))"

text \<open>
  \<open>handleMatterError\<close> of the services with the discovery parser
  (\<^verbatim>\<open>src/unnamed/part_002\<close>, lines 129 to 183, and the same text in
  \<^verbatim>\<open>src/matterServer/server.js\<close>, lines 705 to 759).
\<close>

definition handleMatterError_2 :: "exec_error \<Rightarrow> jsobj" where
  "handleMatterError_2 error =
     (if includes_str (message error) ''CHIP Error 0x00000032: Timeout''
         \<or> stderr_includes error ''CHIP Error 0x00000032: Timeout'' then
        [(''code'', JStr ''TIMEOUT_ERROR''), (''message'', JStr msg_timeout),
         (''errorCode'', JStr ''0x00000032'')]
      else if includes_str (message error) ''CHIP:BLE'' then
        [(''code'', JStr ''BLE_ERROR''), (''message'', JStr msg_ble)]
      else if includes_str (message error) ''CHIP:DMG'' then
        [(''code'', JStr ''DATA_MODEL_ERROR''), (''message'', JStr msg_data_model)]
      else if includes_str (message error) ''not found'' then
        [(''code'', JStr ''COMMAND_NOT_FOUND''), (''message'', JStr msg_command_not_found)]
      else (case matchChipError (message_or_stderr error) of
              Some code \<Rightarrow>
                [(''code'', JStr ''MATTER_SDK_ERROR''), (''message'', JStr msg_sdk_error),
                 (''errorCode'', JStr code)]
            | None \<Rightarrow>
                (case stderr error of
                   Some t \<Rightarrow>
                     if t \<noteq> [] then
                       [(''code'', JStr ''MATTER_SDK_ERROR''),
                        (''message'', JStr (msg_sdk_error_prefix @ t))]
                     else
                       [(''code'', JStr ''UNKNOWN_ERROR''),
                        (''message'', JStr (msg_unknown_prefix @ message error))]
                 | None \<Rightarrow>
                     [(''code'', JStr ''UNKNOWN_ERROR''),
                      (''message'', JStr (msg_unknown_prefix @ message error))])))"

text \<open>
  An exception raised inside the \<open>try\<close> block of a handler reaches its \<open>catch\<close>
  clause as an error object with a message and no \<open>stderr\<close>.
\<close>

fun error_of_exn :: "exn \<Rightarrow> exec_error" where
  "error_of_exn (TypeError m) = \<lparr>message = m, stderr = None\<rparr>"

text \<open>The \<open>catch\<close> clause of a handler: \<open>res.status(500).json({status: "error", ...errorDetails})\<close>.\<close>

definition respond_500 :: "jsobj \<Rightarrow> response" where
  "respond_500 errorDetails = \<lparr>http = 500, json = spread [(''status'', JStr ''error'')] errorDetails\<rparr>"

definition respond_error :: "nat \<Rightarrow> string \<Rightarrow> response" where
  "respond_error code msg = \<lparr>http = code, json = [(''status'', JStr ''error''), (''message'', JStr msg)]\<rparr>"

text \<open>Handing a command to the tool: the command is recorded, the tool answers.\<close>

definition execute :: "env \<Rightarrow> string \<Rightarrow> state \<Rightarrow> (exec_error + string) \<times> state" where
  "execute e command st = (run e command, st\<lparr>commands := commands st @ [command]\<rparr>)"

subsection \<open>The command lines\<close>

text \<open>\<open>`pairing code ${nodeId} ${setupCode}`\<close>.\<close>

definition command_pairing_code :: "jsval \<Rightarrow> jsval \<Rightarrow> exn + string" where
  "command_pairing_code nodeId setupCode =
     (case js_toString nodeId of
        Inl ex \<Rightarrow> Inl ex
      | Inr n \<Rightarrow>
          (case js_toString setupCode of
             Inl ex \<Rightarrow> Inl ex
           | Inr c \<Rightarrow> Inr (''pairing code '' @ n @ '' '' @ c)))"

text \<open>\<open>`pairing ble-wifi ${nodeId} ${discriminator} "${ssid}" "${password}"`\<close>.\<close>

definition command_ble_wifi :: "jsval \<Rightarrow> jsval \<Rightarrow> jsval \<Rightarrow> jsval \<Rightarrow> exn + string" where
  "command_ble_wifi nodeId discriminator ssid password =
     (case js_toString nodeId of
        Inl ex \<Rightarrow> Inl ex
      | Inr n \<Rightarrow>
          (case js_toString discriminator of
             Inl ex \<Rightarrow> Inl ex
           | Inr d \<Rightarrow>
               (case js_toString ssid of
                  Inl ex \<Rightarrow> Inl ex
                | Inr s \<Rightarrow>
                    (case js_toString password of
                       Inl ex \<Rightarrow> Inl ex
                     | Inr p \<Rightarrow>
                         Inr (''pairing ble-wifi '' @ n @ '' '' @ d @ '' '' @ quoted s
                                @ '' '' @ quoted p)))))"

subsection \<open>\<open>POST /api/pairing/code\<close>\<close>

text \<open>
  The entry returned as \<open>deviceInfo\<close> is read back with the very key it was stored
  under, so it is the entry just stored.
\<close>

definition pairedEntry :: "jsval \<Rightarrow> jsval \<Rightarrow> string \<Rightarrow> jsobj" where
  "pairedEntry setupCode discriminator timestamp =
     [(''status'', JStr ''paired''),
      (''setupCode'', setupCode),
      (''discriminator'', discriminator),
      (''timestamp'', JStr timestamp)]"

definition pairing_code :: "env \<Rightarrow> jsobj \<Rightarrow> state \<Rightarrow> response \<times> state" where
  "pairing_code e body st =
     (let nodeId = field_default body ''nodeId'' defaultNodeId;
          setupCode = obj_get body ''setupCode'';
          discriminator = obj_get body ''discriminator''
      in if \<not> truthy setupCode then (respond_error 400 msg_setup_code_required, st)
         else (case interpolate [nodeId, setupCode] of
                 Inl ex \<Rightarrow> (respond_500 (handleMatterError_1 (error_of_exn ex)), st)
               | Inr logged \<Rightarrow>
                   (case command_pairing_code nodeId setupCode of
                      Inl ex \<Rightarrow> (respond_500 (handleMatterError_1 (error_of_exn ex)), st)
                    | Inr command \<Rightarrow>
                        (case execute e command st of
                           (Inl error, st1) \<Rightarrow> (respond_500 (handleMatterError_1 error), st1)
                         | (Inr result, st1) \<Rightarrow>
                             (let entry = pairedEntry setupCode discriminator (now e);
                                  st2 = st1\<lparr>deviceState := map_set (deviceState st1) nodeId entry\<rparr>
                              in (\<lparr>http = 200,
                                   json = [(''status'', JStr ''success''),
                                           (''message'', JStr msg_pairing_done),
                                           (''deviceInfo'', JObj entry),
                                           (''output'', JStr result)]\<rparr>, st2))))))"

subsection \<open>\<open>POST /api/commissioning/wifi\<close>\<close>

definition commissionedEntry :: "jsobj \<Rightarrow> jsval \<Rightarrow> string \<Rightarrow> jsobj" where
  "commissionedEntry deviceInfo ssid timestamp =
     obj_set (obj_set deviceInfo ''status'' (JStr ''commissioned''))
       ''network'' (JObj [(''ssid'', ssid), (''timestamp'', JStr timestamp)])"

definition commissioning_wifi :: "env \<Rightarrow> jsobj \<Rightarrow> state \<Rightarrow> response \<times> state" where
  "commissioning_wifi e body st =
     (let nodeId = field_default body ''nodeId'' defaultNodeId;
          ssid = obj_get body ''ssid'';
          password = obj_get body ''password'';
          discriminator = obj_get body ''discriminator''
      in if \<not> truthy ssid \<or> \<not> truthy password then (respond_error 400 msg_wifi_required, st)
         else (case interpolate [nodeId, ssid] of
                 Inl ex \<Rightarrow> (respond_500 (handleMatterError_1 (error_of_exn ex)), st)
               | Inr logged \<Rightarrow>
                   (case command_ble_wifi nodeId discriminator ssid password of
                      Inl ex \<Rightarrow> (respond_500 (handleMatterError_1 (error_of_exn ex)), st)
                    | Inr command \<Rightarrow>
                        (case execute e command st of
                           (Inl error, st1) \<Rightarrow> (respond_500 (handleMatterError_1 error), st1)
                         | (Inr result, st1) \<Rightarrow>
                             (let deviceInfo = (case map_get (deviceState st1) nodeId of
                                                  Some info \<Rightarrow> info | None \<Rightarrow> []);
                                  entry = commissionedEntry deviceInfo ssid (now e);
                                  st2 = st1\<lparr>deviceState := map_set (deviceState st1) nodeId entry\<rparr>
                              in (\<lparr>http = 200,
                                   json = [(''status'', JStr ''success''),
                                           (''message'', JStr msg_wifi_done),
                                           (''deviceInfo'', JObj entry),
                                           (''output'', JStr result)]\<rparr>, st2))))))"

subsection \<open>\<open>POST /api/device/pair\<close>\<close>

definition device_pair :: "env \<Rightarrow> jsobj \<Rightarrow> state \<Rightarrow> response \<times> state" where
  "device_pair e body st =
     (let deviceId = obj_get body ''deviceId'';
          manualPairingCode = obj_get body ''manualPairingCode''
      in if \<not> truthy manualPairingCode then (respond_error 400 msg_matter_code_required, st)
         else (case map_get (deviceState st) deviceId of
                 None \<Rightarrow> (respond_error 404 msg_device_not_found, st)
               | Some deviceInfo \<Rightarrow>
                   (case interpolate [obj_get deviceInfo ''name'', manualPairingCode] of
                      Inl ex \<Rightarrow> (respond_500 (handleMatterError_2 (error_of_exn ex)), st)
                    | Inr logged \<Rightarrow>
                        (case command_pairing_code deviceId manualPairingCode of
                           Inl ex \<Rightarrow> (respond_500 (handleMatterError_2 (error_of_exn ex)), st)
                         | Inr command \<Rightarrow>
                             (case execute e command st of
                                (Inl error, st1) \<Rightarrow> (respond_500 (handleMatterError_2 error), st1)
                              | (Inr result, st1) \<Rightarrow>
                                  (let entry = obj_set (obj_set (obj_set deviceInfo
                                                 ''manualPairingCode'' manualPairingCode)
                                                 ''status'' (JStr ''paired''))
                                                 ''pairingTimestamp'' (JStr (now e));
                                       st2 = st1\<lparr>deviceState :=
                                                    map_set (deviceState st1) deviceId entry\<rparr>
                                   in (\<lparr>http = 200,
                                        json = [(''status'', JStr ''success''),
                                                (''message'', JStr msg_pairing_done),
                                                (''deviceInfo'', JObj entry)]\<rparr>, st2)))))))"

subsection \<open>\<open>POST /api/device/commission\<close>\<close>

definition device_commission :: "env \<Rightarrow> jsobj \<Rightarrow> state \<Rightarrow> response \<times> state" where
  "device_commission e body st =
     (let deviceId = obj_get body ''deviceId'';
          ssid = obj_get body ''ssid'';
          password = obj_get body ''password''
      in case map_get (deviceState st) deviceId of
           None \<Rightarrow> (respond_error 404 msg_device_not_found, st)
         | Some deviceInfo \<Rightarrow>
             if obj_get deviceInfo ''status'' \<noteq> JStr ''paired'' then (respond_error 400 msg_not_paired, st)
             else (let wifiSSID = js_or ssid (WIFI_SSID e);
                       wifiPassword = js_or password (WIFI_PASSWORD e)
                   in if \<not> truthy wifiSSID \<or> \<not> truthy wifiPassword
                      then (respond_error 400 msg_wifi_missing, st)
                      else
                        (case interpolate [obj_get deviceInfo ''name'', wifiSSID] of
                           Inl ex \<Rightarrow> (respond_500 (handleMatterError_2 (error_of_exn ex)), st)
                         | Inr logged \<Rightarrow>
                             (case command_ble_wifi deviceId (obj_get deviceInfo ''discriminator'')
                                     wifiSSID wifiPassword of
                                Inl ex \<Rightarrow> (respond_500 (handleMatterError_2 (error_of_exn ex)), st)
                              | Inr command \<Rightarrow>
                                  (case execute e command st of
                                     (Inl error, st1) \<Rightarrow> (respond_500 (handleMatterError_2 error), st1)
                                   | (Inr result, st1) \<Rightarrow>
                                       (let entry = commissionedEntry deviceInfo wifiSSID (now e);
                                            st2 = st1\<lparr>deviceState :=
                                                         map_set (deviceState st1) deviceId entry\<rparr>
                                        in (\<lparr>http = 200,
                                             json = [(''status'', JStr ''success''),
                                                     (''message'', JStr msg_commission_done),
                                                     (''deviceInfo'', JObj entry)]\<rparr>, st2)))))))"

subsection \<open>\<open>/api/device/search\<close>\<close>

text \<open>
  \<open>devices.forEach(device => deviceState.set(device.nodeId, {...device, status:
  'discovered', timestamp: new Date().toISOString()}))\<close>; the clock is read once here.
\<close>

definition discoveredEntry :: "string \<Rightarrow> jsobj \<Rightarrow> jsobj" where
  "discoveredEntry timestamp device =
     obj_set (obj_set device ''status'' (JStr ''discovered'')) ''timestamp'' (JStr timestamp)"

definition registerDiscovered :: "string \<Rightarrow> jsobj list \<Rightarrow> registry \<Rightarrow> registry" where
  "registerDiscovered timestamp devices m =
     foldl (\<lambda>m device. map_set m (obj_get device ''nodeId'') (discoveredEntry timestamp device))
       m devices"

text \<open>An exception of the parser, had it propagated, would reach the handler's \<open>catch\<close>.\<close>

definition device_search ::
  "(jsval \<Rightarrow> exn + jsobj list) \<Rightarrow> env \<Rightarrow> state \<Rightarrow> response \<times> state" where
  "device_search parseDiscoveryResult e st =
     (case execute e ''discover commissionables'' st of
        (Inl error, st1) \<Rightarrow> (respond_500 (handleMatterError_2 error), st1)
      | (Inr result, st1) \<Rightarrow>
          (case parseDiscoveryResult (JStr result) of
             Inl ex \<Rightarrow> (respond_500 (handleMatterError_2 (error_of_exn ex)), st1)
           | Inr devices \<Rightarrow>
               (\<lparr>http = 200,
                 json = [(''status'', JStr ''success''),
                         (''message'', JStr (if devices \<noteq> [] then msg_search_done else msg_search_none)),
                         (''devices'', JArr (map JObj devices))]\<rparr>,
                st1\<lparr>deviceState := registerDiscovered (now e) devices (deviceState st1)\<rparr>)))"

text \<open>The handler of the service with variant A (\<open>POST\<close>) and of the one with variant B (\<open>GET\<close>).\<close>

definition device_search_A :: "env \<Rightarrow> state \<Rightarrow> response \<times> state" where
  "device_search_A = device_search parseDiscoveryResult_A"

definition device_search_B :: "env \<Rightarrow> state \<Rightarrow> response \<times> state" where
  "device_search_B = device_search parseDiscoveryResult_B"

section \<open>Notions used in the statements\<close>

subsection \<open>The loop and its records\<close>

text \<open>A property of every record of a loop state: the pushed ones and the open one.\<close>

definition all_devices :: "(jsobj \<Rightarrow> bool) \<Rightarrow> pstate \<Rightarrow> bool" where
  "all_devices P st = ((\<forall>d \<in> set (fst st). P d) \<and> (\<forall>d. snd st = Some d \<longrightarrow> P d))"

text \<open>The keys to which variant A, and variant B, assign a string taken from a line.\<close>

definition scalar_keys_A :: "string list" where
  "scalar_keys_A = [''name'', ''port'', ''vendorId'', ''productId'', ''deviceType'',
     ''discriminator'', ''pairingHint'', ''instanceName'', ''commissioningMode'']"

definition scalar_keys_B :: "string list" where
  "scalar_keys_B = [''name'', ''port'', ''setupDiscriminator'', ''vendorId'', ''productId'',
     ''deviceType'', ''instanceName'', ''pairingHint'', ''commissioningMode'']"

text \<open>The record has an array under \<open>addresses\<close>, so \<open>push\<close> can be called on it.\<close>

definition has_addresses :: "jsobj \<Rightarrow> bool" where
  "has_addresses d = (\<exists>xs. obj_get d ''addresses'' = JArr xs)"

text \<open>No address of the record is the placeholder \<open>not present\<close> or the empty string.\<close>

definition no_placeholder :: "jsobj \<Rightarrow> bool" where
  "no_placeholder d =
     (\<forall>xs. obj_get d ''addresses'' = JArr xs \<longrightarrow> JStr ''not present'' \<notin> set xs \<and> JStr [] \<notin> set xs)"

text \<open>The lines at which variant A, and variant B, start a new record.\<close>

definition startsRecord_A :: "string \<Rightarrow> bool" where
  "startsRecord_A line = (cleanLine_A line = marker)"

definition startsRecord_B :: "string \<Rightarrow> bool" where
  "startsRecord_B line =
     (includes_str line ''[DIS]'' \<and> includes_str (removeAnsiEscapes (trim line)) marker)"

text \<open>The records the loop collects from a list of lines, before the identifiers are assigned.\<close>

definition devicesOf :: "(pstate \<Rightarrow> string \<Rightarrow> exn + pstate) \<Rightarrow> string list \<Rightarrow> jsobj list" where
  "devicesOf step lines =
     (case scanLines step ([], None) lines of Inl e \<Rightarrow> [] | Inr st \<Rightarrow> pushCurrent st)"

text \<open>The number a string of decimal digits stands for: the inverse of \<open>toString\<close>.\<close>

definition decimal_value :: "string \<Rightarrow> nat" where
  "decimal_value s = foldl (\<lambda>a c. 10 * a + (of_char c - 48)) 0 s"

text \<open>The discovery fields of a record that a registry entry must carry over.\<close>

definition discovery_fields :: "string list" where
  "discovery_fields = [''name'', ''addresses'', ''port'', ''vendorId'', ''productId'',
     ''deviceType'', ''discriminator'', ''instanceName'', ''commissioningMode'']"

subsection \<open>Escape sequences\<close>

text \<open>Every escape character of the string begins a complete colour sequence.\<close>

fun well_escaped :: "string \<Rightarrow> bool" where
  "well_escaped [] = True"
| "well_escaped (c # cs) = ((c \<noteq> ESC \<or> matchAnsi (c # cs) \<noteq> None) \<and> well_escaped cs)"

text \<open>The characters a colour sequence is made of.\<close>

definition ansi_char :: "char \<Rightarrow> bool" where
  "ansi_char c = (c = ESC \<or> c = CHR ''['' \<or> is_sgr_param c \<or> c = CHR ''m'')"

text \<open>
  A property of every string in a field value: of the value itself when it is a string,
  of its entries when it is an array.
\<close>

definition all_strings :: "(string \<Rightarrow> bool) \<Rightarrow> jsval \<Rightarrow> bool" where
  "all_strings P v =
     (case v of
        JStr s \<Rightarrow> P s
      | JArr xs \<Rightarrow> (\<forall>x \<in> set xs. case x of JStr s \<Rightarrow> P s | _ \<Rightarrow> True)
      | _ \<Rightarrow> True)"

text \<open>No string in the record contains an escape character.\<close>

definition esc_clean :: "jsobj \<Rightarrow> bool" where
  "esc_clean d = (\<forall>k. all_strings (\<lambda>v. ESC \<notin> set v) (obj_get d k))"

section \<open>Concrete inputs\<close>

subsection \<open>Tools, registries and request bodies\<close>

text \<open>A tool that always succeeds, a fixed clock, and a registry with nothing in it.\<close>

definition demo_env :: env where
  "demo_env = \<lparr>run = (\<lambda>command. Inr ''ok''), now = ''2025-01-01T00:00:00.000Z'',
                WIFI_SSID = JUndefined, WIFI_PASSWORD = JUndefined\<rparr>"

definition empty_state :: state where
  "empty_state = \<lparr>deviceState = [], commands = []\<rparr>"

text \<open>A registry holding one discovered device under the identifier \<open>"1"\<close>.\<close>

definition light1_entry :: jsobj where
  "light1_entry =
     [(''name'', JStr ''light1''),
      (''addresses'', JArr [JStr ''192.168.1.50'']),
      (''port'', JStr ''5540''),
      (''nodeId'', JStr ''1''),
      (''status'', JStr ''discovered''),
      (''timestamp'', JStr ''2024-12-31T23:59:00.000Z'')]"

definition discovered_state :: state where
  "discovered_state = \<lparr>deviceState = [(JStr ''1'', light1_entry)], commands = []\<rparr>"

text \<open>
  Request bodies: Wi-Fi commissioning of the device \<open>"7"\<close>, pairing of the device
  \<open>"1"\<close> through \<open>/api/pairing/code\<close> and through \<open>/api/device/pair\<close>.
\<close>

definition wifi_body :: jsobj where
  "wifi_body =
     [(''deviceId'', JStr ''7''), (''nodeId'', JStr ''7''),
      (''ssid'', JStr ''home''), (''password'', JStr ''secret'')]"

definition code_body :: jsobj where
  "code_body = [(''nodeId'', JStr ''1''), (''setupCode'', JStr ''34970112332'')]"

definition pair_body :: jsobj where
  "pair_body = [(''deviceId'', JStr ''1''), (''manualPairingCode'', JStr ''34970112332'')]"

text \<open>
  Request bodies in which a value is an object with a key \<open>toString\<close> of its own, as
  \<open>JSON.parse\<close> makes of \<open>{"toString": 1}\<close>.
\<close>

definition unprintable_code_body :: jsobj where
  "unprintable_code_body =
     [(''nodeId'', JStr ''1''), (''setupCode'', JObj [(''toString'', JNum ''1'')])]"

definition unprintable_wifi_body :: jsobj where
  "unprintable_wifi_body =
     [(''nodeId'', JStr ''1''), (''ssid'', JObj [(''toString'', JNum ''1'')]),
      (''password'', JStr ''secret'')]"

subsection \<open>Discovery outputs and the records expected from them\<close>

text \<open>
  The scenario of the specification, as it stands and with the log prefix of the tool on
  every line; the record variant A and variant B make of it; a tool that prints the
  tagged lines, and one that prints the lines as they stand.
\<close>

definition scenario_input :: string where
  "scenario_input =
     ''Discovered commissionable/commissioner node:\<newline>Hostname: light1\<newline>IP Address #1: 192.168.1.50\<newline>Port: 5540\<newline>Vendor ID: 0xFFF1\<newline>''"

definition scenario_tagged :: string where
  "scenario_tagged =
     ''[1744266250.301] [47866:47868] [DIS] Discovered commissionable/commissioner node:\<newline>[1744266250.302] [47866:47868] [DIS] Hostname: light1\<newline>[1744266250.303] [47866:47868] [DIS] IP Address #1: 192.168.1.50\<newline>[1744266250.304] [47866:47868] [DIS] Port: 5540\<newline>[1744266250.305] [47866:47868] [DIS] Vendor ID: 0xFFF1\<newline>''"

definition light1_A :: jsobj where
  "light1_A =
     [(''name'', JStr ''light1''),
      (''addresses'', JArr [JStr ''192.168.1.50'']),
      (''port'', JStr ''5540''),
      (''vendorId'', JStr ''0xFFF1''),
      (''productId'', JStr []),
      (''deviceType'', JStr []),
      (''discriminator'', JStr []),
      (''pairingHint'', JStr []),
      (''instanceName'', JStr []),
      (''commissioningMode'', JStr []),
      (''supportsCommissionerGeneratedPasscode'', JBool False),
      (''nodeId'', JStr ''1''),
      (''type'', JStr ''wifi'')]"

definition light1_B :: jsobj where
  "light1_B =
     [(''nodeId'', JStr ''1''),
      (''name'', JStr ''light1''),
      (''setupPinCode'', JStr []),
      (''setupDiscriminator'', JStr []),
      (''vendorId'', JStr ''0xFFF1''),
      (''productId'', JStr []),
      (''deviceType'', JStr []),
      (''instanceName'', JStr []),
      (''addresses'', JArr [JStr ''192.168.1.50'']),
      (''port'', JStr ''5540''),
      (''pairingHint'', JStr []),
      (''commissioningMode'', JStr []),
      (''type'', JStr ''wifi'')]"

definition scan_env :: env where
  "scan_env = \<lparr>run = (\<lambda>command. Inr scenario_tagged), now = ''2025-01-01T00:00:00.000Z'',
                WIFI_SSID = JUndefined, WIFI_PASSWORD = JUndefined\<rparr>"

definition plain_env :: env where
  "plain_env = \<lparr>run = (\<lambda>command. Inr scenario_input), now = ''2025-01-01T00:00:00.000Z'',
                 WIFI_SSID = JUndefined, WIFI_PASSWORD = JUndefined\<rparr>"

text \<open>An output with an absent first address.\<close>

definition not_present_input :: string where
  "not_present_input =
     ''[1744266250.301] [47866:47868] [DIS] Discovered commissionable/commissioner node:\<newline>[1744266250.302] [47866:47868] [DIS] IP Address #1: not present\<newline>[1744266250.303] [47866:47868] [DIS] IP Address #2: 10.0.0.5\<newline>''"

text \<open>An output naming a Thread device.\<close>

definition thread_input :: string where
  "thread_input =
     ''[1744266250.301] [47866:47868] [DIS] Discovered commissionable/commissioner node:\<newline>[1744266250.302] [47866:47868] [DIS] Hostname: thread-sensor\<newline>''"

definition thread_A :: jsobj where
  "thread_A = obj_set (obj_set (obj_set freshDevice_A ''name'' (JStr ''thread-sensor''))
            ''nodeId'' (JStr ''1'')) ''type'' (JStr ''wifi'')"

definition thread_B :: jsobj where
  "thread_B = obj_set (obj_set freshDevice_B ''name'' (JStr ''thread-sensor'')) ''nodeId'' (JStr ''1'')"

text \<open>
  An output with two devices; a line that starts a record in both variants; an output
  with the marker but no \<open>[DIS]\<close> tag; an output whose lines carry the prefix
  \<open>[t][p:t] CHIP:DIS:\<close>; a blank output.
\<close>

definition two_blocks_input :: string where
  "two_blocks_input =
     ''[1744266250.301] [47866:47868] [DIS] Discovered commissionable/commissioner node:\<newline>[1744266250.302] [47866:47868] [DIS] Hostname: light1\<newline>[1744266250.303] [47866:47868] [DIS] Discovered commissionable/commissioner node:\<newline>[1744266250.304] [47866:47868] [DIS] Hostname: light2\<newline>''"

definition two_blocks_A :: "jsobj list" where
  "two_blocks_A =
     [obj_set (obj_set (obj_set freshDevice_A ''name'' (JStr ''light1''))
        ''nodeId'' (JStr ''1'')) ''type'' (JStr ''wifi''),
      obj_set (obj_set (obj_set freshDevice_A ''name'' (JStr ''light2''))
        ''nodeId'' (JStr ''2'')) ''type'' (JStr ''wifi'')]"

definition two_blocks_B :: "jsobj list" where
  "two_blocks_B =
     [obj_set (obj_set freshDevice_B ''name'' (JStr ''light1'')) ''nodeId'' (JStr ''1''),
      obj_set (obj_set freshDevice_B ''name'' (JStr ''light2'')) ''nodeId'' (JStr ''2'')]"

definition marker_line :: string where
  "marker_line = ''[1744266250.301] [47866:47868] [DIS] Discovered commissionable/commissioner node:''"

definition untagged_marker_input :: string where
  "untagged_marker_input = ''Discovered commissionable/commissioner node:\<newline>Hostname: light2\<newline>''"

definition other_prefix_input :: string where
  "other_prefix_input =
     ''[1744266250.301][47866:47868] CHIP:DIS: Discovered commissionable/commissioner node:\<newline>[1744266250.302][47866:47868] CHIP:DIS: Hostname: light1\<newline>''"

definition blank_input :: string where
  "blank_input = ''  \<newline> ''"

text \<open>
  An output with a coloured host name, and one in which a colour sequence stands between
  the pieces of another.
\<close>

definition coloured_input :: string where
  "coloured_input =
     ''[1744266250.301] [47866:47868] [DIS] Discovered commissionable/commissioner node:\<newline>[1744266250.302] [47866:47868] [DIS] Hostname: ''
       @ [ESC] @ ''[31mlight1'' @ [ESC] @ ''[0m\<newline>''"

definition coloured_name :: string where
  "coloured_name = [ESC] @ ''[31mlight1'' @ [ESC] @ ''[0m''"

definition coloured_A :: jsobj where
  "coloured_A = obj_set (obj_set (obj_set freshDevice_A ''name'' (JStr coloured_name))
                  ''nodeId'' (JStr ''1'')) ''type'' (JStr ''wifi'')"

definition coloured_B :: jsobj where
  "coloured_B = obj_set (obj_set freshDevice_B ''name'' (JStr ''light1'')) ''nodeId'' (JStr ''1'')"

definition nested_input :: string where
  "nested_input =
     ''[1744266250.301] [47866:47868] [DIS] Discovered commissionable/commissioner node:\<newline>[1744266250.302] [47866:47868] [DIS] IP Address #1: ''
       @ [ESC] @ ''['' @ [ESC] @ ''[0mm10.0.0.5\<newline>''"

definition nested_address :: string where
  "nested_address = [ESC] @ ''[m10.0.0.5''"

definition nested_B :: jsobj where
  "nested_B = obj_set (obj_set freshDevice_B ''addresses'' (JArr [JStr nested_address]))
                ''nodeId'' (JStr ''1'')"

section \<open>Objects and the registry\<close>

lemma obj_get_obj_set: "obj_get (obj_set ob k v) k' = (if k' = k then v else obj_get ob k')"
  by (simp add: obj_get_def obj_set_def update_conv')

lemma has_key_obj_set: "has_key (obj_set ob k v) k' = (k' = k \<or> has_key ob k')"
  by (auto simp: has_key_def obj_set_def dom_update)

lemma obj_get_absent: "\<not> has_key ob k \<Longrightarrow> obj_get ob k = JUndefined"
proof -
  assume "\<not> has_key ob k"
  then have "map_of ob k = None"
    by (simp add: has_key_def map_of_eq_None_iff)
  then show ?thesis by (simp add: obj_get_def)
qed

lemma map_get_map_set:
  "map_get (map_set m k v) k' = (if k' = k \<and> is_primitive k then Some v else map_get m k')"
  by (auto simp: map_get_def map_set_def update_conv' map_add_def split: option.splits)

section \<open>Invariants of the scanning loop\<close>

lemma all_devices_initial: "all_devices P ([], None)"
  by (simp add: all_devices_def)

lemma all_devices_pushCurrent: "all_devices P st \<Longrightarrow> d \<in> set (pushCurrent st) \<Longrightarrow> P d"
  by (cases st; cases "snd st") (auto simp: all_devices_def)

lemma scanLines_invariant_aux:
  "(\<forall>line \<in> set lines. \<forall>st st'. I st \<longrightarrow> step st line = Inr st' \<longrightarrow> I st') \<Longrightarrow>
     I st \<Longrightarrow> scanLines step st lines = Inr st' \<Longrightarrow> I st'"
proof (induction lines arbitrary: st)
  case Nil
  then show ?case by simp
next
  case (Cons line lines)
  from Cons.prems(3) obtain st1 where st1: "step st line = Inr st1"
      and rest: "scanLines step st1 lines = Inr st'"
    by (auto split: sum.splits)
  have "line \<in> set (line # lines)" by simp
  with Cons.prems(1,2) st1 have "I st1" by blast
  moreover have "\<forall>l \<in> set lines. \<forall>st st'. I st \<longrightarrow> step st l = Inr st' \<longrightarrow> I st'"
  proof
    fix l assume "l \<in> set lines"
    then have "l \<in> set (line # lines)" by simp
    with Cons.prems(1) show "\<forall>st st'. I st \<longrightarrow> step st l = Inr st' \<longrightarrow> I st'" by blast
  qed
  ultimately show ?case using Cons.IH rest by blast
qed

lemma scanLines_invariant:
  assumes "\<And>st line st'. line \<in> set lines \<Longrightarrow> I st \<Longrightarrow> step st line = Inr st' \<Longrightarrow> I st'"
      and "I st" and "scanLines step st lines = Inr st'"
  shows "I st'"
proof -
  have "\<forall>line \<in> set lines. \<forall>st st'. I st \<longrightarrow> step st line = Inr st' \<longrightarrow> I st'"
    using assms(1) by blast
  then show ?thesis
    using assms(2,3) by (rule scanLines_invariant_aux)
qed

text \<open>How a field line changes the open record, variant A.\<close>

lemma fieldLine_A_cases:
  assumes "fieldLine_A d l = Inr d'"
  shows "d' = d
       \<or> (\<exists>k \<in> set scalar_keys_A. d' = obj_set d k (JStr (extractValue_A l)))
       \<or> (\<exists>xs. obj_get d ''addresses'' = JArr xs \<and> extractValue_A l \<noteq> []
              \<and> d' = obj_set d ''addresses'' (JArr (xs @ [JStr (extractValue_A l)])))
       \<or> (\<exists>b. d' = obj_set d ''supportsCommissionerGeneratedPasscode'' (JBool b))"
  using assms
  by (auto simp: fieldLine_A_def push_address_def Let_def scalar_keys_A_def
      split: if_splits jsval.splits)

lemma fieldLine_B_cases:
  assumes "fieldLine_B d l = Inr d'"
  shows "d' = d
       \<or> (\<exists>k \<in> set scalar_keys_B. \<exists>key. d' = obj_set d k (JStr (extractValue_B l key)))
       \<or> (\<exists>xs a. obj_get d ''addresses'' = JArr xs \<and> ipAddress_B l = Inr a
              \<and> a \<noteq> [] \<and> a \<noteq> ''not present''
              \<and> d' = obj_set d ''addresses'' (JArr (xs @ [JStr a])))"
  using assms
  by (auto simp: fieldLine_B_def push_address_def Let_def scalar_keys_B_def
      split: if_splits jsval.splits sum.splits)

lemma step_A_all_devices:
  assumes "P freshDevice_A"
      and "\<And>d d'. P d \<Longrightarrow> fieldLine_A d (cleanLine_A line) = Inr d' \<Longrightarrow> P d'"
      and "all_devices P st" and "step_A st line = Inr st'"
  shows "all_devices P st'"
proof (cases st)
  case (Pair devices cur)
  show ?thesis
  proof (cases cur)
    case None
    with Pair assms(1,3,4) show ?thesis
      by (auto simp: all_devices_def Let_def split: if_splits)
  next
    case (Some d)
    with Pair assms show ?thesis
      by (auto simp: all_devices_def Let_def split: if_splits sum.splits)
  qed
qed

lemma step_B_all_devices:
  assumes "P freshDevice_B"
      and "\<And>d d'. P d \<Longrightarrow> fieldLine_B d (removeAnsiEscapes (trim line)) = Inr d' \<Longrightarrow> P d'"
      and "all_devices P st" and "step_B st line = Inr st'"
  shows "all_devices P st'"
proof (cases st)
  case (Pair devices cur)
  show ?thesis
  proof (cases cur)
    case None
    with Pair assms(1,3,4) show ?thesis
      by (auto simp: all_devices_def Let_def split: if_splits)
  next
    case (Some d)
    with Pair assms show ?thesis
      by (auto simp: all_devices_def Let_def split: if_splits sum.splits)
  qed
qed

section \<open>A property of every record of a parse\<close>

lemma in_assignNodeIds_A:
  "x \<in> set (assignNodeIds_A ds) \<Longrightarrow>
     \<exists>d \<in> set ds. \<exists>i. x = obj_set (obj_set d ''nodeId'' (JStr (toString (i + 1)))) ''type'' (JStr ''wifi'')"
  by (auto simp: assignNodeIds_A_def in_set_enumerate_eq)

lemma in_assignNodeIds_B:
  "x \<in> set (assignNodeIds_B ds) \<Longrightarrow>
     \<exists>d \<in> set ds. \<exists>i. x = obj_set d ''nodeId'' (JStr (toString (i + 1)))"
  by (auto simp: assignNodeIds_B_def in_set_enumerate_eq)

lemma scan_A_all_devices:
  assumes "P freshDevice_A"
      and "\<And>line d d'. line \<in> set lines \<Longrightarrow> P d \<Longrightarrow>
             fieldLine_A d (cleanLine_A line) = Inr d' \<Longrightarrow> P d'"
      and "scanLines step_A ([], None) lines = Inr st"
  shows "all_devices P st"
proof (rule scanLines_invariant [where step = step_A and st = "([], None)" and lines = lines])
  show "all_devices P ([], None)" by (rule all_devices_initial)
  show "scanLines step_A ([], None) lines = Inr st" by (rule assms(3))
next
  fix st line st'
  assume line: "line \<in> set lines" and inv: "all_devices P st" and step: "step_A st line = Inr st'"
  show "all_devices P st'"
    using assms(1) assms(2) [OF line] inv step by (rule step_A_all_devices)
qed

lemma scan_B_all_devices:
  assumes "P freshDevice_B"
      and "\<And>line d d'. line \<in> set lines \<Longrightarrow> P d \<Longrightarrow>
             fieldLine_B d (removeAnsiEscapes (trim line)) = Inr d' \<Longrightarrow> P d'"
      and "scanLines step_B ([], None) lines = Inr st"
  shows "all_devices P st"
proof (rule scanLines_invariant [where step = step_B and st = "([], None)" and lines = lines])
  show "all_devices P ([], None)" by (rule all_devices_initial)
  show "scanLines step_B ([], None) lines = Inr st" by (rule assms(3))
next
  fix st line st'
  assume line: "line \<in> set lines" and inv: "all_devices P st" and step: "step_B st line = Inr st'"
  show "all_devices P st'"
    using assms(1) assms(2) [OF line] inv step by (rule step_B_all_devices)
qed

lemma parse_A_cases:
  assumes "parseDiscoveryResult_A result = Inr devices" and "d \<in> set devices"
  obtains s st where "result = JStr s" "scanLines step_A ([], None) (split_char CHR 0x0A s) = Inr st"
    "d \<in> set (assignNodeIds_A (pushCurrent st))"
  using assms
  by (auto simp: parseDiscoveryResult_A_def tryBlock_A_def split: sum.splits if_splits jsval.splits)

lemma parse_B_cases:
  assumes "parseDiscoveryResult_B result = Inr devices" and "d \<in> set devices"
  obtains s st where "result = JStr s" "scanLines step_B ([], None) (split_char CHR 0x0A s) = Inr st"
    "d \<in> set (assignNodeIds_B (pushCurrent st))"
  using assms
  by (auto simp: parseDiscoveryResult_B_def tryBlock_B_def split: sum.splits if_splits jsval.splits)

lemma parse_B_invariant:
  assumes fresh: "P freshDevice_B"
      and field: "\<And>s line d d'. result = JStr s \<Longrightarrow> line \<in> set (split_char CHR 0x0A s) \<Longrightarrow> P d \<Longrightarrow>
             fieldLine_B d (removeAnsiEscapes (trim line)) = Inr d' \<Longrightarrow> P d'"
      and nodeId: "\<And>d n. P d \<Longrightarrow> P (obj_set d ''nodeId'' (JStr (toString n)))"
      and parse: "parseDiscoveryResult_B result = Inr devices" and d: "d \<in> set devices"
  shows "P d"
proof -
  from parse d obtain s st where s: "result = JStr s"
      and st: "scanLines step_B ([], None) (split_char CHR 0x0A s) = Inr st"
      and dd: "d \<in> set (assignNodeIds_B (pushCurrent st))"
    by (rule parse_B_cases)
  from dd obtain d0 i where d0: "d0 \<in> set (pushCurrent st)"
      and eq: "d = obj_set d0 ''nodeId'' (JStr (toString (i + 1)))"
    by (auto dest!: in_assignNodeIds_B)
  have "all_devices P st"
    using fresh field [OF s] st by (rule scan_B_all_devices)
  then have "P d0" using d0 by (rule all_devices_pushCurrent)
  with eq nodeId show ?thesis by simp
qed

section \<open>The network type\<close>

lemma fieldLine_B_type:
  assumes "obj_get d ''type'' = JStr ''wifi''" and "fieldLine_B d l = Inr d'"
  shows "obj_get d' ''type'' = JStr ''wifi''"
  using fieldLine_B_cases [OF assms(2)] assms(1)
  by (auto simp: obj_get_obj_set scalar_keys_B_def)

lemma parse_A_type:
  assumes "parseDiscoveryResult_A result = Inr devices" and "d \<in> set devices"
  shows "obj_get d ''type'' = JStr ''wifi''"
proof -
  from assms obtain s st where "d \<in> set (assignNodeIds_A (pushCurrent st))"
    by (rule parse_A_cases)
  then show ?thesis
    by (auto dest!: in_assignNodeIds_A simp: obj_get_obj_set)
qed

lemma parse_B_type:
  assumes "parseDiscoveryResult_B result = Inr devices" and "d \<in> set devices"
  shows "obj_get d ''type'' = JStr ''wifi''"
proof (rule parse_B_invariant [where P = "\<lambda>d. obj_get d ''type'' = JStr ''wifi''", OF _ _ _ assms])
  show "obj_get freshDevice_B ''type'' = JStr ''wifi''"
    by (simp add: freshDevice_B_def obj_get_def)
qed (simp_all add: fieldLine_B_type obj_get_obj_set)

section \<open>Addresses that are not addresses\<close>

lemma fieldLine_B_no_placeholder:
  assumes "no_placeholder d" and "fieldLine_B d l = Inr d'"
  shows "no_placeholder d'"
  using fieldLine_B_cases [OF assms(2)] assms(1)
  by (auto simp: no_placeholder_def obj_get_obj_set scalar_keys_B_def)

lemma parse_B_no_placeholder:
  assumes "parseDiscoveryResult_B result = Inr devices" and "d \<in> set devices"
  shows "no_placeholder d"
proof (rule parse_B_invariant [where P = no_placeholder, OF _ _ _ assms])
  show "no_placeholder freshDevice_B"
    by (simp add: no_placeholder_def freshDevice_B_def obj_get_def)
next
  fix d n assume "no_placeholder d"
  then show "no_placeholder (obj_set d ''nodeId'' (JStr (toString n)))"
    by (simp add: no_placeholder_def obj_get_obj_set)
qed (simp add: fieldLine_B_no_placeholder)

section \<open>The parsers never raise on a string\<close>

lemma split_str_not_Nil: "sep \<noteq> [] \<Longrightarrow> split_str sep s \<noteq> []"
  by (subst split_str.simps) (auto split: list.splits)

lemma split_str_two:
  "sep \<noteq> [] \<Longrightarrow> includes_str s sep \<Longrightarrow> \<exists>p0 p1 ps. split_str sep s = p0 # p1 # ps"
proof (induction s)
  case Nil
  then show ?case by simp
next
  case (Cons c cs)
  show ?case
  proof (cases "startsWith (c # cs) sep")
    case True
    obtain q qs where "split_str sep (drop (length sep) (c # cs)) = q # qs"
      using split_str_not_Nil [OF Cons.prems(1)] by (meson list.exhaust)
    with True Cons.prems(1) show ?thesis
      by (subst split_str.simps) simp
  next
    case False
    with Cons.prems have "includes_str cs sep" by simp
    with Cons.IH Cons.prems(1) obtain p0 p1 ps where "split_str sep cs = p0 # p1 # ps"
      by blast
    with False Cons.prems(1) show ?thesis
      by (subst split_str.simps) simp
  qed
qed

lemma ipAddress_B_ok: "includes_str l ''IP Address #'' \<Longrightarrow> \<exists>a. ipAddress_B l = Inr a"
  using split_str_two [of "''IP Address #''" l]
  by (auto simp: ipAddress_B_def)

lemma has_addresses_obj_set:
  "has_addresses d \<Longrightarrow> k \<noteq> ''addresses'' \<Longrightarrow> has_addresses (obj_set d k v)"
  "has_addresses (obj_set d ''addresses'' (JArr ys))"
  by (simp_all add: has_addresses_def obj_get_obj_set)

lemma fieldLine_A_ok: "has_addresses d \<Longrightarrow> \<exists>d'. fieldLine_A d l = Inr d'"
  by (auto simp: fieldLine_A_def push_address_def Let_def has_addresses_def)

lemma fieldLine_B_ok: "has_addresses d \<Longrightarrow> \<exists>d'. fieldLine_B d l = Inr d'"
  using ipAddress_B_ok [of l]
  by (auto simp: fieldLine_B_def push_address_def Let_def has_addresses_def)

lemma fieldLine_A_has_addresses:
  "has_addresses d \<Longrightarrow> fieldLine_A d l = Inr d' \<Longrightarrow> has_addresses d'"
  by (drule fieldLine_A_cases) (auto simp: has_addresses_obj_set scalar_keys_A_def)

lemma fieldLine_B_has_addresses:
  "has_addresses d \<Longrightarrow> fieldLine_B d l = Inr d' \<Longrightarrow> has_addresses d'"
  by (drule fieldLine_B_cases) (auto simp: has_addresses_obj_set scalar_keys_B_def)

lemma has_addresses_fresh: "has_addresses freshDevice_A" "has_addresses freshDevice_B"
  by (simp_all add: has_addresses_def freshDevice_A_def freshDevice_B_def obj_get_def)

lemma step_A_ok:
  assumes "all_devices has_addresses st"
  shows "\<exists>st'. step_A st line = Inr st'"
proof (cases st)
  case (Pair devices cur)
  show ?thesis
  proof (cases cur)
    case None
    with Pair show ?thesis by (simp add: Let_def)
  next
    case (Some d)
    with Pair assms have "has_addresses d" by (simp add: all_devices_def)
    then obtain d' where "fieldLine_A d (cleanLine_A line) = Inr d'"
      using fieldLine_A_ok by blast
    with Pair Some show ?thesis by (simp add: Let_def)
  qed
qed

lemma step_B_ok:
  assumes "all_devices has_addresses st"
  shows "\<exists>st'. step_B st line = Inr st'"
proof (cases st)
  case (Pair devices cur)
  show ?thesis
  proof (cases cur)
    case None
    with Pair show ?thesis by (simp add: Let_def)
  next
    case (Some d)
    with Pair assms have "has_addresses d" by (simp add: all_devices_def)
    then obtain d' where "fieldLine_B d (removeAnsiEscapes (trim line)) = Inr d'"
      using fieldLine_B_ok by blast
    with Pair Some show ?thesis by (simp add: Let_def)
  qed
qed

lemma scanLines_A_ok:
  "all_devices has_addresses st \<Longrightarrow> \<exists>st'. scanLines step_A st lines = Inr st'"
proof (induction lines arbitrary: st)
  case Nil
  then show ?case by simp
next
  case (Cons line lines)
  from step_A_ok [OF Cons.prems] obtain st1 where st1: "step_A st line = Inr st1" by blast
  have "all_devices has_addresses st1"
    using has_addresses_fresh(1) _ Cons.prems st1
    by (rule step_A_all_devices) (rule fieldLine_A_has_addresses)
  from Cons.IH [OF this] st1 show ?case by simp
qed

lemma scanLines_B_ok:
  "all_devices has_addresses st \<Longrightarrow> \<exists>st'. scanLines step_B st lines = Inr st'"
proof (induction lines arbitrary: st)
  case Nil
  then show ?case by simp
next
  case (Cons line lines)
  from step_B_ok [OF Cons.prems] obtain st1 where st1: "step_B st line = Inr st1" by blast
  have "all_devices has_addresses st1"
    using has_addresses_fresh(2) _ Cons.prems st1
    by (rule step_B_all_devices) (rule fieldLine_B_has_addresses)
  from Cons.IH [OF this] st1 show ?case by simp
qed

lemma trim_Nil [simp]: "trim [] = []"
  by (simp add: trim_def)

lemma tryBlock_A_string:
  "\<exists>st. scanLines step_A ([], None) (split_char CHR 0x0A s) = Inr st
      \<and> tryBlock_A (JStr s) = Inr (if trim s = [] then [] else assignNodeIds_A (pushCurrent st))"
  using scanLines_A_ok [OF all_devices_initial, of "split_char CHR 0x0A s"]
  by (auto simp: tryBlock_A_def)

lemma tryBlock_B_string:
  "\<exists>st. scanLines step_B ([], None) (split_char CHR 0x0A s) = Inr st
      \<and> tryBlock_B (JStr s) = Inr (if trim s = [] then [] else assignNodeIds_B (pushCurrent st))"
  using scanLines_B_ok [OF all_devices_initial, of "split_char CHR 0x0A s"]
  by (auto simp: tryBlock_B_def)

section \<open>How many records, and their identifiers\<close>

lemma length_pushCurrent: "length (pushCurrent (devices, cur)) = length devices + (if cur = None then 0 else 1)"
  by (cases cur) simp_all

lemma step_A_count:
  assumes "step_A st line = Inr st'"
  shows "length (pushCurrent st') = length (pushCurrent st) + (if startsRecord_A line then 1 else 0)"
proof (cases st)
  case (Pair devices cur)
  with assms show ?thesis
    by (cases cur) (auto simp: Let_def startsRecord_A_def split: if_splits sum.splits)
qed

lemma step_B_count:
  assumes "step_B st line = Inr st'"
  shows "length (pushCurrent st') = length (pushCurrent st) + (if startsRecord_B line then 1 else 0)"
proof (cases st)
  case (Pair devices cur)
  with assms show ?thesis
    by (cases cur) (auto simp: Let_def startsRecord_B_def split: if_splits sum.splits)
qed

lemma scan_A_count:
  "scanLines step_A st lines = Inr st' \<Longrightarrow>
     length (pushCurrent st') = length (pushCurrent st) + length (filter startsRecord_A lines)"
proof (induction lines arbitrary: st)
  case Nil
  then show ?case by simp
next
  case (Cons line lines)
  then obtain st1 where st1: "step_A st line = Inr st1" and rest: "scanLines step_A st1 lines = Inr st'"
    by (auto split: sum.splits)
  from Cons.IH [OF rest] step_A_count [OF st1] show ?case by simp
qed

lemma scan_B_count:
  "scanLines step_B st lines = Inr st' \<Longrightarrow>
     length (pushCurrent st') = length (pushCurrent st) + length (filter startsRecord_B lines)"
proof (induction lines arbitrary: st)
  case Nil
  then show ?case by simp
next
  case (Cons line lines)
  then obtain st1 where st1: "step_B st line = Inr st1" and rest: "scanLines step_B st1 lines = Inr st'"
    by (auto split: sum.splits)
  from Cons.IH [OF rest] step_B_count [OF st1] show ?case by simp
qed

text \<open>A blank input has no line that starts a record.\<close>

lemma trim_eq_Nil: "trim s = [] \<longleftrightarrow> (\<forall>c \<in> set s. is_space c)"
proof
  assume "trim s = []"
  then have all: "\<forall>c \<in> set (dropWhile is_space s). is_space c"
    by (simp add: trim_def dropWhile_eq_Nil_conv)
  have "dropWhile is_space s = []"
  proof (rule ccontr)
    assume ne: "dropWhile is_space s \<noteq> []"
    then have "\<not> is_space (hd (dropWhile is_space s))" by (rule hd_dropWhile)
    moreover have "hd (dropWhile is_space s) \<in> set (dropWhile is_space s)" using ne by simp
    ultimately show False using all by blast
  qed
  then show "\<forall>c \<in> set s. is_space c" by (simp add: dropWhile_eq_Nil_conv)
next
  assume "\<forall>c \<in> set s. is_space c"
  then show "trim s = []" by (auto simp: trim_def dest: set_dropWhileD)
qed

lemma set_split_char: "l \<in> set (split_char c s) \<Longrightarrow> set l \<subseteq> set s"
proof (induction s arbitrary: l)
  case Nil
  then show ?case by simp
next
  case (Cons x xs)
  show ?case
  proof (cases "split_char c xs")
    case Nil
    with Cons.prems show ?thesis by (auto split: if_splits)
  next
    case (Cons p ps)
    have p: "set p \<subseteq> set xs" using Cons.IH [of p] Cons by simp
    have ps: "\<And>q. q \<in> set ps \<Longrightarrow> set q \<subseteq> set xs" using Cons.IH Cons by simp
    from Cons.prems Cons have "l = [] \<or> l = p \<or> l = x # p \<or> l \<in> set ps"
      by (auto split: if_splits)
    with p ps show ?thesis by auto
  qed
qed

lemma stripLogPrefix_no_bracket: "CHR ''['' \<notin> set s \<Longrightarrow> stripLogPrefix s = s"
  by (induction s) (auto simp: matchLogPrefix_def lit_def)

lemma includes_str_head: "includes_str s (c # p) \<Longrightarrow> c \<in> set s"
  by (induction s) (auto simp: startsWith_def)

lemma bracket_not_space: "\<not> is_space CHR ''[''"
  by (simp add: is_space_def)

lemma blank_line_A:
  assumes "\<forall>c \<in> set l. is_space c"
  shows "\<not> startsRecord_A l"
proof -
  have "CHR ''['' \<notin> set l" using assms bracket_not_space by blast
  then have "cleanLine_A l = trim l" by (simp add: cleanLine_A_def stripLogPrefix_no_bracket)
  also have "\<dots> = []" using assms by (simp add: trim_eq_Nil)
  finally show ?thesis by (simp add: startsRecord_A_def marker_def)
qed

lemma blank_line_B:
  assumes "\<forall>c \<in> set l. is_space c"
  shows "\<not> startsRecord_B l"
proof -
  have "CHR ''['' \<notin> set l" using assms bracket_not_space by blast
  then have "\<not> includes_str l ''[DIS]''" using includes_str_head by blast
  then show ?thesis by (simp add: startsRecord_B_def)
qed

lemma blank_input_no_records:
  assumes "trim s = []"
  shows "filter startsRecord_A (split_char c s) = []" "filter startsRecord_B (split_char c s) = []"
proof -
  have sp: "\<forall>x \<in> set s. is_space x"
    using assms by (simp add: trim_eq_Nil)
  have "\<forall>l \<in> set (split_char c s). \<forall>x \<in> set l. is_space x"
  proof (intro ballI)
    fix l x assume "l \<in> set (split_char c s)" "x \<in> set l"
    then have "x \<in> set s" using set_split_char by blast
    with sp show "is_space x" by blast
  qed
  then show "filter startsRecord_A (split_char c s) = []" "filter startsRecord_B (split_char c s) = []"
    by (auto simp: filter_empty_conv blank_line_A blank_line_B)
qed

lemma length_assignNodeIds [simp]:
  "length (assignNodeIds_A ds) = length ds" "length (assignNodeIds_B ds) = length ds"
  by (simp_all add: assignNodeIds_A_def assignNodeIds_B_def)

lemma assignNodeIds_A_nth:
  "i < length ds \<Longrightarrow> assignNodeIds_A ds ! i =
     obj_set (obj_set (ds ! i) ''nodeId'' (JStr (toString (i + 1)))) ''type'' (JStr ''wifi'')"
  by (simp add: assignNodeIds_A_def nth_enumerate_eq)

lemma assignNodeIds_B_nth:
  "i < length ds \<Longrightarrow> assignNodeIds_B ds ! i = obj_set (ds ! i) ''nodeId'' (JStr (toString (i + 1)))"
  by (simp add: assignNodeIds_B_def nth_enumerate_eq)

lemma parse_A_string:
  "parseDiscoveryResult_A (JStr s) =
     Inr (if trim s = [] then [] else assignNodeIds_A (devicesOf step_A (split_char CHR 0x0A s)))"
  using tryBlock_A_string [of s]
  by (auto simp: parseDiscoveryResult_A_def devicesOf_def)

lemma parse_B_string:
  "parseDiscoveryResult_B (JStr s) =
     Inr (if trim s = [] then [] else assignNodeIds_B (devicesOf step_B (split_char CHR 0x0A s)))"
  using tryBlock_B_string [of s]
  by (auto simp: parseDiscoveryResult_B_def devicesOf_def)

lemma length_devicesOf_A: "length (devicesOf step_A lines) = length (filter startsRecord_A lines)"
proof -
  obtain st where st: "scanLines step_A ([], None) lines = Inr st"
    using scanLines_A_ok [OF all_devices_initial] by blast
  from scan_A_count [OF st] st show ?thesis by (simp add: devicesOf_def)
qed

lemma length_devicesOf_B: "length (devicesOf step_B lines) = length (filter startsRecord_B lines)"
proof -
  obtain st where st: "scanLines step_B ([], None) lines = Inr st"
    using scanLines_B_ok [OF all_devices_initial] by blast
  from scan_B_count [OF st] st show ?thesis by (simp add: devicesOf_def)
qed

lemma parse_A_count:
  "\<exists>devices. parseDiscoveryResult_A (JStr s) = Inr devices
     \<and> length devices = length (filter startsRecord_A (split_char CHR 0x0A s))
     \<and> (\<forall>i < length devices. obj_get (devices ! i) ''nodeId'' = JStr (toString (i + 1)))"
  by (simp add: parse_A_string blank_input_no_records length_devicesOf_A assignNodeIds_A_nth
      obj_get_obj_set)

lemma parse_B_count:
  "\<exists>devices. parseDiscoveryResult_B (JStr s) = Inr devices
     \<and> length devices = length (filter startsRecord_B (split_char CHR 0x0A s))
     \<and> (\<forall>i < length devices. obj_get (devices ! i) ''nodeId'' = JStr (toString (i + 1)))"
  by (simp add: parse_B_string blank_input_no_records length_devicesOf_B assignNodeIds_B_nth
      obj_get_obj_set)

section \<open>Encounter order\<close>

lemma scanLines_append:
  "scanLines step st (xs @ ys) =
     (case scanLines step st xs of Inl e \<Rightarrow> Inl e | Inr st' \<Rightarrow> scanLines step st' ys)"
  by (induction xs arbitrary: st) (auto split: sum.splits)

lemma step_A_shift:
  "step_A (devices, cur) line = Inr (devices', cur') \<Longrightarrow>
     step_A (pre @ devices, cur) line = Inr (pre @ devices', cur')"
  by (cases cur) (auto simp: Let_def split: if_splits sum.splits)

lemma step_B_shift:
  "step_B (devices, cur) line = Inr (devices', cur') \<Longrightarrow>
     step_B (pre @ devices, cur) line = Inr (pre @ devices', cur')"
  by (cases cur) (auto simp: Let_def split: if_splits sum.splits)

lemma scanLines_shift:
  assumes "\<And>devices cur line devices' cur' pre.
             step (devices, cur) line = Inr (devices', cur') \<Longrightarrow>
             step (pre @ devices, cur) line = Inr (pre @ devices', cur')"
  shows "scanLines step (devices, cur) lines = Inr (devices', cur') \<Longrightarrow>
         scanLines step (pre @ devices, cur) lines = Inr (pre @ devices', cur')"
proof (induction lines arbitrary: devices cur)
  case Nil
  then show ?case by simp
next
  case (Cons line lines)
  then obtain d1 c1 where st1: "step (devices, cur) line = Inr (d1, c1)"
      and rest: "scanLines step (d1, c1) lines = Inr (devices', cur')"
    by (auto split: sum.splits)
  from assms [OF st1] Cons.IH [OF rest] show ?case by simp
qed

lemma devicesOf_A_append:
  assumes "startsRecord_A m"
  shows "devicesOf step_A (before @ m # after) = devicesOf step_A before @ devicesOf step_A (m # after)"
proof -
  obtain st1 where st1: "scanLines step_A ([], None) before = Inr st1"
    using scanLines_A_ok [OF all_devices_initial] by blast
  obtain st2' where "scanLines step_A ([], None) (m # after) = Inr st2'"
    using scanLines_A_ok [OF all_devices_initial] by blast
  then obtain d2 c2 where st2: "scanLines step_A ([], None) (m # after) = Inr (d2, c2)"
    by (cases st2') simp
  have m0: "step_A ([], None) m = Inr ([], Some freshDevice_A)"
    using assms by (simp add: startsRecord_A_def Let_def)
  have m1: "step_A st1 m = Inr (pushCurrent st1 @ [], Some freshDevice_A)"
    using assms by (cases st1) (simp add: startsRecord_A_def Let_def)
  from st2 m0 have "scanLines step_A ([], Some freshDevice_A) after = Inr (d2, c2)" by simp
  then have "scanLines step_A (pushCurrent st1 @ [], Some freshDevice_A) after
               = Inr (pushCurrent st1 @ d2, c2)"
    by (rule scanLines_shift [rotated]) (rule step_A_shift)
  with st1 m1 have "scanLines step_A ([], None) (before @ m # after) = Inr (pushCurrent st1 @ d2, c2)"
    by (simp add: scanLines_append)
  with st1 st2 show ?thesis
    by (cases c2) (simp_all add: devicesOf_def)
qed

lemma devicesOf_B_append:
  assumes "startsRecord_B m"
  shows "devicesOf step_B (before @ m # after) = devicesOf step_B before @ devicesOf step_B (m # after)"
proof -
  obtain st1 where st1: "scanLines step_B ([], None) before = Inr st1"
    using scanLines_B_ok [OF all_devices_initial] by blast
  obtain st2' where "scanLines step_B ([], None) (m # after) = Inr st2'"
    using scanLines_B_ok [OF all_devices_initial] by blast
  then obtain d2 c2 where st2: "scanLines step_B ([], None) (m # after) = Inr (d2, c2)"
    by (cases st2') simp
  have m0: "step_B ([], None) m = Inr ([], Some freshDevice_B)"
    using assms by (simp add: startsRecord_B_def Let_def)
  have m1: "step_B st1 m = Inr (pushCurrent st1 @ [], Some freshDevice_B)"
    using assms by (cases st1) (simp add: startsRecord_B_def Let_def)
  from st2 m0 have "scanLines step_B ([], Some freshDevice_B) after = Inr (d2, c2)" by simp
  then have "scanLines step_B (pushCurrent st1 @ [], Some freshDevice_B) after
               = Inr (pushCurrent st1 @ d2, c2)"
    by (rule scanLines_shift [rotated]) (rule step_B_shift)
  with st1 m1 have "scanLines step_B ([], None) (before @ m # after) = Inr (pushCurrent st1 @ d2, c2)"
    by (simp add: scanLines_append)
  with st1 st2 show ?thesis
    by (cases c2) (simp_all add: devicesOf_def)
qed

section \<open>Validation and lookup failures of the handlers\<close>

lemma command_pairing_code_Inr:
  assumes "command_pairing_code nodeId setupCode = Inr command"
  shows "\<exists>n c. js_toString nodeId = Inr n \<and> js_toString setupCode = Inr c"
  using assms by (auto simp: command_pairing_code_def split: sum.splits)

lemma command_ble_wifi_Inr:
  assumes "command_ble_wifi nodeId discriminator ssid password = Inr command"
  shows "\<exists>n s. js_toString nodeId = Inr n \<and> js_toString ssid = Inr s"
  using assms by (auto simp: command_ble_wifi_def split: sum.splits)

lemma command_ble_wifi_logged:
  assumes "command_ble_wifi nodeId discriminator ssid password = Inr command"
  shows "\<exists>logged. interpolate [nodeId, ssid] = Inr logged"
  using command_ble_wifi_Inr [OF assms] by (auto simp: interpolate_def)

lemma command_pairing_code_logged:
  assumes "command_pairing_code nodeId setupCode = Inr command"
  shows "\<exists>logged. interpolate [nodeId, setupCode] = Inr logged"
  using command_pairing_code_Inr [OF assms] by (auto simp: interpolate_def)

lemma pairing_code_falsy:
  "\<not> truthy (obj_get body ''setupCode'') \<Longrightarrow>
     pairing_code e body st = (respond_error 400 msg_setup_code_required, st)"
  by (simp add: pairing_code_def Let_def)

text \<open>
  Claim C8. A request to \<open>POST /api/pairing/code\<close> whose body has no \<open>setupCode\<close> is
  answered with status 400 and the body \<open>{status: "error", message: ...}\<close>; the state
  comes back as it was, so no command was handed to the tool and the registry is
  unchanged.
\<close>

theorem pairing_code_without_setupCode:
  assumes "\<not> has_key body ''setupCode''"
  shows "pairing_code e body st =
           (\<lparr>http = 400,
             json = [(''status'', JStr ''error''), (''message'', JStr msg_setup_code_required)]\<rparr>,
            st)"
proof -
  have "\<not> truthy (obj_get body ''setupCode'')"
    using assms by (simp add: obj_get_absent)
  then show ?thesis
    by (simp add: pairing_code_falsy respond_error_def)
qed

theorem pairing_code_without_setupCode_witness:
  "\<not> has_key [(''discriminator'', JStr ''123'')] ''setupCode''
   \<and> http (fst (pairing_code demo_env [(''discriminator'', JStr ''123'')] empty_state)) = 400
   \<and> obj_get (json (fst (pairing_code demo_env [(''discriminator'', JStr ''123'')] empty_state)))
        ''status'' = JStr ''error''
   \<and> commands (snd (pairing_code demo_env [(''discriminator'', JStr ''123'')] empty_state)) = []
   \<and> deviceState (snd (pairing_code demo_env [(''discriminator'', JStr ''123'')] empty_state)) = []"
proof -
  have h: "\<not> has_key [(''discriminator'', JStr ''123'')] ''setupCode''"
    by (simp add: has_key_def)
  show ?thesis
    using h pairing_code_without_setupCode [OF h, of demo_env empty_state]
    by (simp add: empty_state_def obj_get_def)
qed

text \<open>
  Claim C1, as stated, fails on \<open>POST /api/commissioning/wifi\<close>: for a \<open>nodeId\<close> the
  registry has never seen, the handler runs the command and, the tool succeeding, answers
  200 and creates an entry.
\<close>

theorem commissioning_wifi_unknown_node_succeeds:
  "map_get (deviceState empty_state) (JStr ''7'') = None
   \<and> http (fst (commissioning_wifi demo_env wifi_body empty_state)) = 200
   \<and> map Inr (commands (snd (commissioning_wifi demo_env wifi_body empty_state)))
       = [command_ble_wifi (JStr ''7'') JUndefined (JStr ''home'') (JStr ''secret'')]
   \<and> map_get (deviceState (snd (commissioning_wifi demo_env wifi_body empty_state))) (JStr ''7'')
       = Some [(''status'', JStr ''commissioned''),
               (''network'', JObj [(''ssid'', JStr ''home''),
                                   (''timestamp'', JStr ''2025-01-01T00:00:00.000Z'')])]"
  by (simp add: commissioning_wifi_def demo_env_def wifi_body_def empty_state_def Let_def
      field_default_def obj_get_def execute_def map_get_def map_set_def commissionedEntry_def
      obj_set_def interpolate_def command_ble_wifi_def)

text \<open>
  Claim C1, amended. \<open>POST /api/device/commission\<close> with a \<open>deviceId\<close> that has no
  registry entry answers 404 and gives the state back as it was, whatever else the body
  holds: no command is run and the registry is unchanged. \<open>POST /api/commissioning/wifi\<close>
  with \<open>ssid\<close> and \<open>password\<close> present does not look the \<open>nodeId\<close> up first. When the
  four values of the command line convert to strings it runs the command; if the tool
  fails it answers 500 and leaves the registry alone, and if the tool succeeds it answers
  200 and stores an entry built from the empty object. When one of the values does not
  convert, it answers 500 and gives the state back as it was.
\<close>

theorem commission_unknown_device:
  "(map_get (deviceState st) (obj_get body ''deviceId'') = None \<longrightarrow>
      device_commission e body st = (respond_error 404 msg_device_not_found, st))
   \<and> (map_get (deviceState st') (field_default body' ''nodeId'' defaultNodeId) = None
        \<and> truthy (obj_get body' ''ssid'') \<and> truthy (obj_get body' ''password'')
        \<and> command_ble_wifi (field_default body' ''nodeId'' defaultNodeId)
              (obj_get body' ''discriminator'') (obj_get body' ''ssid'')
              (obj_get body' ''password'') = Inr command \<longrightarrow>
      commands (snd (commissioning_wifi e' body' st')) = commands st' @ [command]
      \<and> (case run e' command of
            Inl error \<Rightarrow>
              fst (commissioning_wifi e' body' st') = respond_500 (handleMatterError_1 error)
              \<and> deviceState (snd (commissioning_wifi e' body' st')) = deviceState st'
          | Inr result \<Rightarrow>
              http (fst (commissioning_wifi e' body' st')) = 200
              \<and> deviceState (snd (commissioning_wifi e' body' st')) =
                  map_set (deviceState st') (field_default body' ''nodeId'' defaultNodeId)
                    (commissionedEntry [] (obj_get body' ''ssid'') (now e'))))
   \<and> (truthy (obj_get body'' ''ssid'') \<and> truthy (obj_get body'' ''password'')
        \<and> command_ble_wifi (field_default body'' ''nodeId'' defaultNodeId)
              (obj_get body'' ''discriminator'') (obj_get body'' ''ssid'')
              (obj_get body'' ''password'') = Inl ex \<longrightarrow>
      http (fst (commissioning_wifi e'' body'' st'')) = 500
      \<and> snd (commissioning_wifi e'' body'' st'') = st'')"
proof -
  have "map_get (deviceState st) (obj_get body ''deviceId'') = None \<longrightarrow>
      device_commission e body st = (respond_error 404 msg_device_not_found, st)"
    by (simp add: device_commission_def Let_def)
  moreover have "map_get (deviceState st') (field_default body' ''nodeId'' defaultNodeId) = None
        \<and> truthy (obj_get body' ''ssid'') \<and> truthy (obj_get body' ''password'')
        \<and> command_ble_wifi (field_default body' ''nodeId'' defaultNodeId)
              (obj_get body' ''discriminator'') (obj_get body' ''ssid'')
              (obj_get body' ''password'') = Inr command \<longrightarrow>
      commands (snd (commissioning_wifi e' body' st')) = commands st' @ [command]
      \<and> (case run e' command of
            Inl error \<Rightarrow>
              fst (commissioning_wifi e' body' st') = respond_500 (handleMatterError_1 error)
              \<and> deviceState (snd (commissioning_wifi e' body' st')) = deviceState st'
          | Inr result \<Rightarrow>
              http (fst (commissioning_wifi e' body' st')) = 200
              \<and> deviceState (snd (commissioning_wifi e' body' st')) =
                  map_set (deviceState st') (field_default body' ''nodeId'' defaultNodeId)
                    (commissionedEntry [] (obj_get body' ''ssid'') (now e')))"
  proof (intro impI, elim conjE)
    assume unknown: "map_get (deviceState st') (field_default body' ''nodeId'' defaultNodeId) = None"
      and ssid: "truthy (obj_get body' ''ssid'')"
      and password: "truthy (obj_get body' ''password'')"
      and command: "command_ble_wifi (field_default body' ''nodeId'' defaultNodeId)
              (obj_get body' ''discriminator'') (obj_get body' ''ssid'')
              (obj_get body' ''password'') = Inr command"
    obtain logged where logged:
      "interpolate [field_default body' ''nodeId'' defaultNodeId, obj_get body' ''ssid''] = Inr logged"
      using command_ble_wifi_logged [OF command] by blast
    show "commands (snd (commissioning_wifi e' body' st')) = commands st' @ [command]
      \<and> (case run e' command of
            Inl error \<Rightarrow>
              fst (commissioning_wifi e' body' st') = respond_500 (handleMatterError_1 error)
              \<and> deviceState (snd (commissioning_wifi e' body' st')) = deviceState st'
          | Inr result \<Rightarrow>
              http (fst (commissioning_wifi e' body' st')) = 200
              \<and> deviceState (snd (commissioning_wifi e' body' st')) =
                  map_set (deviceState st') (field_default body' ''nodeId'' defaultNodeId)
                    (commissionedEntry [] (obj_get body' ''ssid'') (now e')))"
      using unknown ssid password command logged
      by (simp add: commissioning_wifi_def Let_def execute_def split: sum.splits)
  qed
  moreover have "truthy (obj_get body'' ''ssid'') \<and> truthy (obj_get body'' ''password'')
        \<and> command_ble_wifi (field_default body'' ''nodeId'' defaultNodeId)
              (obj_get body'' ''discriminator'') (obj_get body'' ''ssid'')
              (obj_get body'' ''password'') = Inl ex \<longrightarrow>
      http (fst (commissioning_wifi e'' body'' st'')) = 500
      \<and> snd (commissioning_wifi e'' body'' st'') = st''"
    by (simp add: commissioning_wifi_def Let_def respond_500_def split: sum.splits)
  ultimately show ?thesis by blast
qed

theorem commission_unknown_device_witness:
  "device_commission demo_env [(''deviceId'', JStr ''7'')] empty_state
     = (respond_error 404 msg_device_not_found, empty_state)
   \<and> map Inr (commands (snd (commissioning_wifi demo_env wifi_body empty_state))) =
       [command_ble_wifi (JStr ''7'') JUndefined (JStr ''home'') (JStr ''secret'')]
   \<and> http (fst (commissioning_wifi demo_env wifi_body empty_state)) = 200
   \<and> deviceState (snd (commissioning_wifi demo_env wifi_body empty_state)) =
       [(JStr ''7'', commissionedEntry [] (JStr ''home'') ''2025-01-01T00:00:00.000Z'')]
   \<and> js_toString (obj_get unprintable_wifi_body ''ssid'') = Inl (TypeError msg_not_primitive)
   \<and> http (fst (commissioning_wifi demo_env unprintable_wifi_body discovered_state)) = 500
   \<and> snd (commissioning_wifi demo_env unprintable_wifi_body discovered_state) = discovered_state"
proof -
  have h1: "map_get (deviceState empty_state) (obj_get [(''deviceId'', JStr ''7'')] ''deviceId'') = None"
    by (simp add: empty_state_def map_get_def)
  have h2: "map_get (deviceState empty_state) (field_default wifi_body ''nodeId'' defaultNodeId) = None"
    by (simp add: empty_state_def map_get_def)
  have h3: "truthy (obj_get wifi_body ''ssid'')" "truthy (obj_get wifi_body ''password'')"
    by (simp_all add: wifi_body_def obj_get_def)
  have c: "command_ble_wifi (JStr ''7'') JUndefined (JStr ''home'') (JStr ''secret'')
             = Inr (''pairing ble-wifi 7 undefined '' @ quoted ''home'' @ '' '' @ quoted ''secret'')"
    by (simp add: command_ble_wifi_def)
  have h4: "command_ble_wifi (field_default wifi_body ''nodeId'' defaultNodeId)
              (obj_get wifi_body ''discriminator'') (obj_get wifi_body ''ssid'')
              (obj_get wifi_body ''password'')
             = Inr (''pairing ble-wifi 7 undefined '' @ quoted ''home'' @ '' '' @ quoted ''secret'')"
    by (simp add: wifi_body_def field_default_def obj_get_def command_ble_wifi_def)
  have h5: "truthy (obj_get unprintable_wifi_body ''ssid'')"
    "truthy (obj_get unprintable_wifi_body ''password'')"
    by (simp_all add: unprintable_wifi_body_def obj_get_def)
  have u: "js_toString (obj_get unprintable_wifi_body ''ssid'') = Inl (TypeError msg_not_primitive)"
    by (simp add: unprintable_wifi_body_def obj_get_def has_key_def)
  have h6: "command_ble_wifi (field_default unprintable_wifi_body ''nodeId'' defaultNodeId)
              (obj_get unprintable_wifi_body ''discriminator'') (obj_get unprintable_wifi_body ''ssid'')
              (obj_get unprintable_wifi_body ''password'') = Inl (TypeError msg_not_primitive)"
    by (simp add: unprintable_wifi_body_def field_default_def obj_get_def command_ble_wifi_def
        defaultNodeId_def has_key_def)
  note t = commission_unknown_device [of empty_state "[(''deviceId'', JStr ''7'')]" demo_env
      empty_state wifi_body
      "''pairing ble-wifi 7 undefined '' @ quoted ''home'' @ '' '' @ quoted ''secret''" demo_env
      unprintable_wifi_body "TypeError msg_not_primitive" demo_env discovered_state]
  have r: "run demo_env (''pairing ble-wifi 7 undefined '' @ quoted ''home'' @ '' '' @ quoted ''secret'')
             = Inr ''ok''"
    by (simp add: demo_env_def)
  from t h1 have a: "device_commission demo_env [(''deviceId'', JStr ''7'')] empty_state
     = (respond_error 404 msg_device_not_found, empty_state)"
    by blast
  from t h2 h3 h4 have b0: "commands (snd (commissioning_wifi demo_env wifi_body empty_state))
       = commands empty_state @ [''pairing ble-wifi 7 undefined '' @ quoted ''home'' @ '' '' @ quoted ''secret'']"
    and b1: "case run demo_env (''pairing ble-wifi 7 undefined '' @ quoted ''home'' @ '' '' @ quoted ''secret'') of
            Inl error \<Rightarrow>
              fst (commissioning_wifi demo_env wifi_body empty_state) = respond_500 (handleMatterError_1 error)
              \<and> deviceState (snd (commissioning_wifi demo_env wifi_body empty_state)) = deviceState empty_state
          | Inr result \<Rightarrow>
              http (fst (commissioning_wifi demo_env wifi_body empty_state)) = 200
              \<and> deviceState (snd (commissioning_wifi demo_env wifi_body empty_state)) =
                  map_set (deviceState empty_state) (field_default wifi_body ''nodeId'' defaultNodeId)
                    (commissionedEntry [] (obj_get wifi_body ''ssid'') (now demo_env))"
    by blast+
  from b0 c have b: "map Inr (commands (snd (commissioning_wifi demo_env wifi_body empty_state))) =
       [command_ble_wifi (JStr ''7'') JUndefined (JStr ''home'') (JStr ''secret'')]"
    by (simp add: empty_state_def)
  from b1 r have d: "http (fst (commissioning_wifi demo_env wifi_body empty_state)) = 200"
    and f: "deviceState (snd (commissioning_wifi demo_env wifi_body empty_state)) =
       [(JStr ''7'', commissionedEntry [] (JStr ''home'') ''2025-01-01T00:00:00.000Z'')]"
    by (simp_all add: demo_env_def wifi_body_def empty_state_def obj_get_def field_default_def
        map_set_def)
  from t h5 h6 have g: "http (fst (commissioning_wifi demo_env unprintable_wifi_body discovered_state)) = 500
      \<and> snd (commissioning_wifi demo_env unprintable_wifi_body discovered_state) = discovered_state"
    by blast
  from a b d f u g show ?thesis by blast
qed

section \<open>What pairing stores\<close>

lemma has_key_pairedEntry:
  "has_key (pairedEntry setupCode discriminator timestamp) k
     = (k \<in> {''status'', ''setupCode'', ''discriminator'', ''timestamp''})"
  by (auto simp: pairedEntry_def has_key_def)

lemma pairing_code_success:
  assumes "truthy (obj_get body ''setupCode'')"
      and "command_pairing_code (field_default body ''nodeId'' defaultNodeId)
             (obj_get body ''setupCode'') = Inr command"
      and "run e command = Inr out"
  shows "http (fst (pairing_code e body st)) = 200"
    and "deviceState (snd (pairing_code e body st)) =
           map_set (deviceState st) (field_default body ''nodeId'' defaultNodeId)
             (pairedEntry (obj_get body ''setupCode'') (obj_get body ''discriminator'') (now e))"
proof -
  obtain logged where
    "interpolate [field_default body ''nodeId'' defaultNodeId, obj_get body ''setupCode''] = Inr logged"
    using command_pairing_code_logged [OF assms(2)] by blast
  with assms show "http (fst (pairing_code e body st)) = 200"
    and "deviceState (snd (pairing_code e body st)) =
           map_set (deviceState st) (field_default body ''nodeId'' defaultNodeId)
             (pairedEntry (obj_get body ''setupCode'') (obj_get body ''discriminator'') (now e))"
    by (simp_all add: pairing_code_def Let_def execute_def)
qed

text \<open>
  A setup code that does not convert to a string stops the handler before the tool is
  called: the request \<open>{nodeId: "1", setupCode: {toString: 1}}\<close> is answered with 500
  and the state comes back as it was.
\<close>

lemma pairing_code_unprintable:
  assumes "truthy (obj_get body ''setupCode'')"
      and "command_pairing_code (field_default body ''nodeId'' defaultNodeId)
             (obj_get body ''setupCode'') = Inl ex"
  shows "http (fst (pairing_code e body st)) = 500" and "snd (pairing_code e body st) = st"
  using assms by (simp_all add: pairing_code_def Let_def respond_500_def split: sum.splits)

lemma pairing_code_unprintable_body:
  "http (fst (pairing_code demo_env unprintable_code_body discovered_state)) = 500
   \<and> snd (pairing_code demo_env unprintable_code_body discovered_state) = discovered_state"
proof -
  have "truthy (obj_get unprintable_code_body ''setupCode'')"
    by (simp add: unprintable_code_body_def obj_get_def)
  moreover have "command_pairing_code (field_default unprintable_code_body ''nodeId'' defaultNodeId)
             (obj_get unprintable_code_body ''setupCode'') = Inl (TypeError msg_not_primitive)"
    by (simp add: unprintable_code_body_def field_default_def obj_get_def command_pairing_code_def
        has_key_def)
  ultimately show ?thesis
    using pairing_code_unprintable by blast
qed

lemma device_pair_success:
  assumes "truthy (obj_get body ''manualPairingCode'')"
      and "map_get (deviceState st) (obj_get body ''deviceId'') = Some prior"
      and "js_toString (obj_get prior ''name'') = Inr name"
      and "command_pairing_code (obj_get body ''deviceId'')
             (obj_get body ''manualPairingCode'') = Inr command"
      and "run e command = Inr out"
  shows "http (fst (device_pair e body st)) = 200"
    and "deviceState (snd (device_pair e body st)) =
           map_set (deviceState st) (obj_get body ''deviceId'')
             (obj_set (obj_set (obj_set prior ''manualPairingCode'' (obj_get body ''manualPairingCode''))
                ''status'' (JStr ''paired'')) ''pairingTimestamp'' (JStr (now e)))"
proof -
  obtain c where "js_toString (obj_get body ''manualPairingCode'') = Inr c"
    using command_pairing_code_Inr [OF assms(4)] by blast
  with assms(3) have
    "interpolate [obj_get prior ''name'', obj_get body ''manualPairingCode''] = Inr [name, c]"
    by (simp add: interpolate_def)
  with assms show "http (fst (device_pair e body st)) = 200"
    and "deviceState (snd (device_pair e body st)) =
           map_set (deviceState st) (obj_get body ''deviceId'')
             (obj_set (obj_set (obj_set prior ''manualPairingCode'' (obj_get body ''manualPairingCode''))
                ''status'' (JStr ''paired'')) ''pairingTimestamp'' (JStr (now e)))"
    by (simp_all add: device_pair_def Let_def execute_def)
qed

text \<open>
  Claim C10. A \<open>POST /api/pairing/code\<close> that succeeds (the setup code is present, the
  command line can be written and the tool accepts it) answers 200, and the entry then
  stored under the \<open>nodeId\<close> is the new object \<open>{status: "paired", setupCode,
  discriminator, timestamp}\<close>, whatever was stored before: it has these four keys and no
  other. A \<open>POST /api/device/pair\<close> that succeeds (the code is present, the device is
  known, the log line and the command line can be written and the tool accepts the
  command) answers 200, and the entry then stored under the \<open>deviceId\<close> has status
  \<open>paired\<close> and agrees with the prior entry on every key other than
  \<open>manualPairingCode\<close>, \<open>status\<close> and \<open>pairingTimestamp\<close>.
\<close>

theorem pairing_code_replaces_device_pair_keeps:
  "(truthy (obj_get body ''setupCode'')
      \<and> is_primitive (field_default body ''nodeId'' defaultNodeId)
      \<and> command_pairing_code (field_default body ''nodeId'' defaultNodeId)
            (obj_get body ''setupCode'') = Inr command
      \<and> run e command = Inr out \<longrightarrow>
    http (fst (pairing_code e body st)) = 200
    \<and> (\<exists>entry.
          map_get (deviceState (snd (pairing_code e body st)))
            (field_default body ''nodeId'' defaultNodeId) = Some entry
        \<and> entry = [(''status'', JStr ''paired''),
                   (''setupCode'', obj_get body ''setupCode''),
                   (''discriminator'', obj_get body ''discriminator''),
                   (''timestamp'', JStr (now e))]
        \<and> (\<forall>k. has_key entry k
               \<longleftrightarrow> k \<in> {''status'', ''setupCode'', ''discriminator'', ''timestamp''})))
   \<and> (truthy (obj_get body' ''manualPairingCode'')
      \<and> map_get (deviceState st') (obj_get body' ''deviceId'') = Some prior
      \<and> js_toString (obj_get prior ''name'') = Inr name
      \<and> command_pairing_code (obj_get body' ''deviceId'')
            (obj_get body' ''manualPairingCode'') = Inr command'
      \<and> run e' command' = Inr out' \<longrightarrow>
    http (fst (device_pair e' body' st')) = 200
    \<and> (\<exists>entry.
          map_get (deviceState (snd (device_pair e' body' st'))) (obj_get body' ''deviceId'') = Some entry
        \<and> obj_get entry ''status'' = JStr ''paired''
        \<and> (\<forall>k. k \<notin> {''manualPairingCode'', ''status'', ''pairingTimestamp''} \<longrightarrow>
               obj_get entry k = obj_get prior k \<and> has_key entry k = has_key prior k)))"
proof (intro conjI impI; elim conjE)
  assume h: "truthy (obj_get body ''setupCode'')"
    "is_primitive (field_default body ''nodeId'' defaultNodeId)"
    "command_pairing_code (field_default body ''nodeId'' defaultNodeId)
       (obj_get body ''setupCode'') = Inr command"
    "run e command = Inr out"
  show "http (fst (pairing_code e body st)) = 200"
    by (rule pairing_code_success(1) [OF h(1,3,4)])
  have "map_get (deviceState (snd (pairing_code e body st)))
          (field_default body ''nodeId'' defaultNodeId)
        = Some (pairedEntry (obj_get body ''setupCode'') (obj_get body ''discriminator'') (now e))"
    using h(2) by (simp add: pairing_code_success(2) [OF h(1,3,4)] map_get_map_set)
  then show "\<exists>entry.
          map_get (deviceState (snd (pairing_code e body st)))
            (field_default body ''nodeId'' defaultNodeId) = Some entry
        \<and> entry = [(''status'', JStr ''paired''),
                   (''setupCode'', obj_get body ''setupCode''),
                   (''discriminator'', obj_get body ''discriminator''),
                   (''timestamp'', JStr (now e))]
        \<and> (\<forall>k. has_key entry k
               \<longleftrightarrow> k \<in> {''status'', ''setupCode'', ''discriminator'', ''timestamp''})"
    using has_key_pairedEntry [of "obj_get body ''setupCode''" "obj_get body ''discriminator''" "now e"]
    by (simp add: pairedEntry_def)
next
  assume h: "truthy (obj_get body' ''manualPairingCode'')"
    "map_get (deviceState st') (obj_get body' ''deviceId'') = Some prior"
    "js_toString (obj_get prior ''name'') = Inr name"
    "command_pairing_code (obj_get body' ''deviceId'')
       (obj_get body' ''manualPairingCode'') = Inr command'"
    "run e' command' = Inr out'"
  have prim: "is_primitive (obj_get body' ''deviceId'')"
    using h(2) by (auto simp: map_get_def split: if_splits)
  show "http (fst (device_pair e' body' st')) = 200"
    by (rule device_pair_success(1) [OF h])
  have "map_get (deviceState (snd (device_pair e' body' st'))) (obj_get body' ''deviceId'')
        = Some (obj_set (obj_set (obj_set prior ''manualPairingCode'' (obj_get body' ''manualPairingCode''))
                ''status'' (JStr ''paired'')) ''pairingTimestamp'' (JStr (now e')))"
    using prim by (simp add: device_pair_success(2) [OF h] map_get_map_set)
  then show "\<exists>entry.
          map_get (deviceState (snd (device_pair e' body' st'))) (obj_get body' ''deviceId'') = Some entry
        \<and> obj_get entry ''status'' = JStr ''paired''
        \<and> (\<forall>k. k \<notin> {''manualPairingCode'', ''status'', ''pairingTimestamp''} \<longrightarrow>
               obj_get entry k = obj_get prior k \<and> has_key entry k = has_key prior k)"
    by (simp add: obj_get_obj_set has_key_obj_set)
qed

theorem pairing_code_replaces_device_pair_keeps_witness:
  "map_get (deviceState discovered_state) (JStr ''1'') = Some light1_entry
   \<and> obj_get light1_entry ''name'' = JStr ''light1''
   \<and> http (fst (pairing_code demo_env code_body discovered_state)) = 200
   \<and> (\<exists>entry. map_get (deviceState (snd (pairing_code demo_env code_body discovered_state))) (JStr ''1'')
                 = Some entry
              \<and> obj_get entry ''status'' = JStr ''paired''
              \<and> \<not> has_key entry ''name'' \<and> \<not> has_key entry ''addresses'' \<and> \<not> has_key entry ''port'')
   \<and> http (fst (device_pair demo_env pair_body discovered_state)) = 200
   \<and> (\<exists>entry. map_get (deviceState (snd (device_pair demo_env pair_body discovered_state))) (JStr ''1'')
                 = Some entry
              \<and> obj_get entry ''status'' = JStr ''paired''
              \<and> obj_get entry ''name'' = JStr ''light1''
              \<and> obj_get entry ''addresses'' = JArr [JStr ''192.168.1.50'']
              \<and> obj_get entry ''port'' = JStr ''5540'')"
proof -
  have h1: "truthy (obj_get code_body ''setupCode'')"
    by (simp add: code_body_def obj_get_def)
  have n: "field_default code_body ''nodeId'' defaultNodeId = JStr ''1''"
    by (simp add: code_body_def field_default_def obj_get_def)
  have h2: "is_primitive (field_default code_body ''nodeId'' defaultNodeId)"
    by (simp add: n)
  have h3: "command_pairing_code (field_default code_body ''nodeId'' defaultNodeId)
              (obj_get code_body ''setupCode'') = Inr ''pairing code 1 34970112332''"
    unfolding n by (simp add: code_body_def obj_get_def command_pairing_code_def)
  have r: "run demo_env ''pairing code 1 34970112332'' = Inr ''ok''"
    by (simp add: demo_env_def)
  have h4: "truthy (obj_get pair_body ''manualPairingCode'')"
    by (simp add: pair_body_def obj_get_def)
  have d: "obj_get pair_body ''deviceId'' = JStr ''1''"
    by (simp add: pair_body_def obj_get_def)
  have h5: "map_get (deviceState discovered_state) (obj_get pair_body ''deviceId'') = Some light1_entry"
    by (simp add: d discovered_state_def map_get_def)
  have l: "obj_get light1_entry ''name'' = JStr ''light1''"
          "obj_get light1_entry ''addresses'' = JArr [JStr ''192.168.1.50'']"
          "obj_get light1_entry ''port'' = JStr ''5540''"
    by (simp_all add: light1_entry_def obj_get_def)
  have h6: "js_toString (obj_get light1_entry ''name'') = Inr ''light1''"
    by (simp add: l)
  have h7: "command_pairing_code (obj_get pair_body ''deviceId'')
              (obj_get pair_body ''manualPairingCode'') = Inr ''pairing code 1 34970112332''"
    by (simp add: pair_body_def obj_get_def command_pairing_code_def)
  note t = pairing_code_replaces_device_pair_keeps [of code_body "''pairing code 1 34970112332''"
      demo_env "''ok''" discovered_state pair_body discovered_state light1_entry "''light1''"
      "''pairing code 1 34970112332''" demo_env "''ok''"]
  from t h1 h2 h3 r have s1: "http (fst (pairing_code demo_env code_body discovered_state)) = 200"
    by blast
  from t h1 h2 h3 r obtain e1 where e1:
    "map_get (deviceState (snd (pairing_code demo_env code_body discovered_state)))
       (field_default code_body ''nodeId'' defaultNodeId) = Some e1"
    "e1 = [(''status'', JStr ''paired''),
           (''setupCode'', obj_get code_body ''setupCode''),
           (''discriminator'', obj_get code_body ''discriminator''),
           (''timestamp'', JStr (now demo_env))]"
    by blast
  from t h4 h5 h6 h7 r have s2: "http (fst (device_pair demo_env pair_body discovered_state)) = 200"
    by blast
  from t h4 h5 h6 h7 r obtain e2 where e2:
    "map_get (deviceState (snd (device_pair demo_env pair_body discovered_state)))
       (obj_get pair_body ''deviceId'') = Some e2"
    "obj_get e2 ''status'' = JStr ''paired''"
    "\<forall>k. k \<notin> {''manualPairingCode'', ''status'', ''pairingTimestamp''} \<longrightarrow>
         obj_get e2 k = obj_get light1_entry k \<and> has_key e2 k = has_key light1_entry k"
    by blast
  have a1: "obj_get e1 ''status'' = JStr ''paired''"
    and a2: "\<not> has_key e1 ''name''"
    and a3: "\<not> has_key e1 ''addresses''"
    and a4: "\<not> has_key e1 ''port''"
    by (simp_all add: e1(2) obj_get_def has_key_def)
  have b1: "obj_get e2 ''name'' = obj_get light1_entry ''name''"
    using e2(3) by simp
  have b2: "obj_get e2 ''addresses'' = obj_get light1_entry ''addresses''"
    using e2(3) by simp
  have b3: "obj_get e2 ''port'' = obj_get light1_entry ''port''"
    using e2(3) by simp
  have first: "\<exists>entry. map_get (deviceState (snd (pairing_code demo_env code_body discovered_state))) (JStr ''1'')
                 = Some entry
              \<and> obj_get entry ''status'' = JStr ''paired''
              \<and> \<not> has_key entry ''name'' \<and> \<not> has_key entry ''addresses'' \<and> \<not> has_key entry ''port''"
    using e1(1) a1 a2 a3 a4 unfolding n by blast
  have second: "\<exists>entry. map_get (deviceState (snd (device_pair demo_env pair_body discovered_state))) (JStr ''1'')
                 = Some entry
              \<and> obj_get entry ''status'' = JStr ''paired''
              \<and> obj_get entry ''name'' = JStr ''light1''
              \<and> obj_get entry ''addresses'' = JArr [JStr ''192.168.1.50'']
              \<and> obj_get entry ''port'' = JStr ''5540''"
    using e2(1,2) b1 b2 b3 l unfolding d by auto
  have zero: "map_get (deviceState discovered_state) (JStr ''1'') = Some light1_entry"
    using h5 unfolding d .
  from zero l(1) s1 first s2 second show ?thesis by blast
qed

section \<open>The parsers on the concrete inputs\<close>

lemma parse_A_scenario: "parseDiscoveryResult_A (JStr scenario_input) = Inr [light1_A]"
  unfolding scenario_input_def light1_A_def by code_simp

lemma parse_B_scenario: "parseDiscoveryResult_B (JStr scenario_input) = Inr []"
  unfolding scenario_input_def by code_simp

lemma parse_A_scenario_tagged: "parseDiscoveryResult_A (JStr scenario_tagged) = Inr [light1_A]"
  unfolding scenario_tagged_def light1_A_def by code_simp

lemma parse_B_scenario_tagged: "parseDiscoveryResult_B (JStr scenario_tagged) = Inr [light1_B]"
  unfolding scenario_tagged_def light1_B_def by code_simp

lemma parse_A_not_present:
  "parseDiscoveryResult_A (JStr not_present_input) =
     Inr [obj_set (obj_set (obj_set freshDevice_A ''addresses'' (JArr [JStr ''not present'', JStr ''10.0.0.5'']))
            ''nodeId'' (JStr ''1'')) ''type'' (JStr ''wifi'')]"
  unfolding not_present_input_def by code_simp

lemma parse_B_not_present:
  "parseDiscoveryResult_B (JStr not_present_input) =
     Inr [obj_set (obj_set freshDevice_B ''addresses'' (JArr [JStr ''10.0.0.5'']))
            ''nodeId'' (JStr ''1'')]"
  unfolding not_present_input_def by code_simp

lemma parse_A_thread:
  "parseDiscoveryResult_A (JStr thread_input) =
     Inr [obj_set (obj_set (obj_set freshDevice_A ''name'' (JStr ''thread-sensor''))
            ''nodeId'' (JStr ''1'')) ''type'' (JStr ''wifi'')]"
  unfolding thread_input_def by code_simp

lemma parse_B_thread:
  "parseDiscoveryResult_B (JStr thread_input) =
     Inr [obj_set (obj_set freshDevice_B ''name'' (JStr ''thread-sensor'')) ''nodeId'' (JStr ''1'')]"
  unfolding thread_input_def by code_simp

lemma detect_thread: "detectDeviceType thread_input = ''thread''"
  unfolding thread_input_def by code_simp

lemma parse_A_two_blocks:
  "parseDiscoveryResult_A (JStr two_blocks_input) =
     Inr [obj_set (obj_set (obj_set freshDevice_A ''name'' (JStr ''light1''))
            ''nodeId'' (JStr ''1'')) ''type'' (JStr ''wifi''),
          obj_set (obj_set (obj_set freshDevice_A ''name'' (JStr ''light2''))
            ''nodeId'' (JStr ''2'')) ''type'' (JStr ''wifi'')]"
  unfolding two_blocks_input_def by code_simp

lemma parse_B_two_blocks:
  "parseDiscoveryResult_B (JStr two_blocks_input) =
     Inr [obj_set (obj_set freshDevice_B ''name'' (JStr ''light1'')) ''nodeId'' (JStr ''1''),
          obj_set (obj_set freshDevice_B ''name'' (JStr ''light2'')) ''nodeId'' (JStr ''2'')]"
  unfolding two_blocks_input_def by code_simp

lemma two_blocks_not_blank: "trim two_blocks_input \<noteq> []"
  unfolding two_blocks_input_def by code_simp

lemma blank_input_blank: "trim blank_input = []"
  unfolding blank_input_def by code_simp

lemma parse_B_untagged_marker:
  "includes_str untagged_marker_input marker \<and> parseDiscoveryResult_B (JStr untagged_marker_input) = Inr []"
  unfolding untagged_marker_input_def by code_simp

lemma parse_A_other_prefix:
  "includes_str other_prefix_input marker \<and> parseDiscoveryResult_A (JStr other_prefix_input) = Inr []"
  unfolding other_prefix_input_def by code_simp

lemma marker_line_starts: "startsRecord_A marker_line" "startsRecord_B marker_line"
  unfolding marker_line_def by code_simp+

text \<open>
  Claim C2, as stated, fails on variant B: no line of the input carries the \<open>[DIS]\<close> tag,
  so every line is skipped and the result is empty.
\<close>

theorem scenario_untagged_variant_B:
  "parseDiscoveryResult_B (JStr scenario_input) = Inr []"
  by (rule parse_B_scenario)

text \<open>
  Claim C2, amended. Variant A turns the input into exactly one record, with \<open>nodeId\<close>
  \<open>"1"\<close>, \<open>name\<close> \<open>"light1"\<close>, \<open>addresses\<close> \<open>["192.168.1.50"]\<close>, \<open>port\<close>
  \<open>"5540"\<close> and \<open>vendorId\<close> \<open>"0xFFF1"\<close>, every other string field empty. Variant B
  gives the record with the same values when each line carries the log prefix with the
  \<open>[DIS]\<close> tag.
\<close>

theorem scenario_light1:
  "parseDiscoveryResult_A (JStr scenario_input) = Inr [light1_A]
   \<and> parseDiscoveryResult_B (JStr scenario_tagged) = Inr [light1_B]
   \<and> map (obj_get light1_A) [''nodeId'', ''name'', ''addresses'', ''port'', ''vendorId'']
       = [JStr ''1'', JStr ''light1'', JArr [JStr ''192.168.1.50''], JStr ''5540'', JStr ''0xFFF1'']
   \<and> map (obj_get light1_B) [''nodeId'', ''name'', ''addresses'', ''port'', ''vendorId'']
       = [JStr ''1'', JStr ''light1'', JArr [JStr ''192.168.1.50''], JStr ''5540'', JStr ''0xFFF1'']"
  by (simp add: parse_A_scenario parse_B_scenario_tagged light1_A_def light1_B_def obj_get_def)

text \<open>
  Claim C3 against variant A: the line \<open>IP Address #1: not present\<close> appends the string
  \<open>"not present"\<close> to \<open>addresses\<close>; only the empty value is skipped there.
\<close>

theorem variant_A_keeps_not_present:
  "parseDiscoveryResult_A (JStr not_present_input) =
     Inr [obj_set (obj_set (obj_set freshDevice_A
            ''addresses'' (JArr [JStr ''not present'', JStr ''10.0.0.5'']))
            ''nodeId'' (JStr ''1'')) ''type'' (JStr ''wifi'')]"
  by (rule parse_A_not_present)

text \<open>
  Claim C4, as stated, fails: the text of this input names a Thread device, and
  \<open>detectDeviceType\<close> would say \<open>thread\<close>, but both variants give the record the type
  \<open>wifi\<close>.
\<close>

theorem thread_device_typed_wifi:
  "detectDeviceType thread_input = ''thread''
   \<and> parseDiscoveryResult_A (JStr thread_input) = Inr [thread_A]
   \<and> obj_get thread_A ''type'' = JStr ''wifi''
   \<and> parseDiscoveryResult_B (JStr thread_input) = Inr [thread_B]
   \<and> obj_get thread_B ''type'' = JStr ''wifi''"
proof -
  have "obj_get freshDevice_B ''type'' = JStr ''wifi''"
    by (simp add: freshDevice_B_def obj_get_def)
  then show ?thesis
    by (simp add: detect_thread parse_A_thread parse_B_thread thread_A_def thread_B_def
        obj_get_obj_set)
qed

text \<open>
  Claim C4, amended. Every record either variant returns has the type \<open>wifi\<close>, one of
  the three values; the value is a constant and is not inferred from the text. Variant B
  puts it into the freshly started record; in variant A the fresh record has no \<open>type\<close>
  and the value is added when the identifiers are assigned.
\<close>

theorem network_type_always_wifi:
  assumes "parseDiscoveryResult_A result = Inr devices" and "parseDiscoveryResult_B result' = Inr devices'"
  shows "(\<forall>d \<in> set devices. obj_get d ''type'' = JStr ''wifi'')
       \<and> (\<forall>d \<in> set devices'. obj_get d ''type'' = JStr ''wifi'')
       \<and> obj_get freshDevice_B ''type'' = JStr ''wifi''
       \<and> \<not> has_key freshDevice_A ''type''"
proof -
  have "obj_get freshDevice_B ''type'' = JStr ''wifi''"
    by (simp add: freshDevice_B_def obj_get_def)
  moreover have "\<not> has_key freshDevice_A ''type''"
    by (simp add: freshDevice_A_def has_key_def)
  ultimately show ?thesis
    using parse_A_type [OF assms(1)] parse_B_type [OF assms(2)] by blast
qed

theorem network_type_always_wifi_witness:
  "parseDiscoveryResult_A (JStr scenario_input) = Inr [light1_A]
   \<and> parseDiscoveryResult_B (JStr scenario_tagged) = Inr [light1_B]
   \<and> obj_get light1_A ''type'' = JStr ''wifi''
   \<and> obj_get light1_B ''type'' = JStr ''wifi''"
  using network_type_always_wifi [OF parse_A_scenario parse_B_scenario_tagged]
    parse_A_scenario parse_B_scenario_tagged
  by simp

text \<open>
  Claim C5, as stated, fails: a line that contains the marker does not always start a
  record. Variant A wants the line to be the marker once the bracketed log prefix is
  gone, so the prefix \<open>[t][p:t] CHIP:DIS:\<close> hides it; variant B wants the \<open>[DIS]\<close> tag
  on the line.
\<close>

theorem marker_inside_line_not_counted:
  "includes_str other_prefix_input marker
   \<and> parseDiscoveryResult_A (JStr other_prefix_input) = Inr []
   \<and> includes_str untagged_marker_input marker
   \<and> parseDiscoveryResult_B (JStr untagged_marker_input) = Inr []"
  using parse_A_other_prefix parse_B_untagged_marker by simp

text \<open>
  Claim C5, amended. For every input string each variant returns as many records as the
  input has lines that start a record for that variant (variant A: the line, with the log
  prefix stripped and trimmed, is the marker; variant B: the line contains \<open>[DIS]\<close> and,
  trimmed and with escapes removed, contains the marker), and the record at position \<open>i\<close>
  (from 0) has the \<open>nodeId\<close> \<open>i + 1\<close> in decimal. The records come in input order: those
  collected from the lines before a starting line, then those collected from that line on.
\<close>

theorem records_per_starting_line:
  "(\<exists>devices. parseDiscoveryResult_A (JStr s) = Inr devices
      \<and> length devices = length (filter startsRecord_A (split_char CHR 0x0A s))
      \<and> (\<forall>i < length devices. obj_get (devices ! i) ''nodeId'' = JStr (toString (i + 1))))
   \<and> (\<exists>devices. parseDiscoveryResult_B (JStr s) = Inr devices
      \<and> length devices = length (filter startsRecord_B (split_char CHR 0x0A s))
      \<and> (\<forall>i < length devices. obj_get (devices ! i) ''nodeId'' = JStr (toString (i + 1))))
   \<and> (trim s \<noteq> [] \<longrightarrow>
        parseDiscoveryResult_A (JStr s) = Inr (assignNodeIds_A (devicesOf step_A (split_char CHR 0x0A s)))
      \<and> parseDiscoveryResult_B (JStr s) = Inr (assignNodeIds_B (devicesOf step_B (split_char CHR 0x0A s))))
   \<and> (startsRecord_A m \<longrightarrow>
        devicesOf step_A (before @ m # after) = devicesOf step_A before @ devicesOf step_A (m # after))
   \<and> (startsRecord_B m' \<longrightarrow>
        devicesOf step_B (before @ m' # after) = devicesOf step_B before @ devicesOf step_B (m' # after))"
  using parse_A_count [of s] parse_B_count [of s]
  by (simp add: parse_A_string parse_B_string devicesOf_A_append devicesOf_B_append)

theorem records_per_starting_line_witness:
  "trim two_blocks_input \<noteq> [] \<and> startsRecord_A marker_line \<and> startsRecord_B marker_line
   \<and> parseDiscoveryResult_A (JStr two_blocks_input) = Inr two_blocks_A
   \<and> parseDiscoveryResult_B (JStr two_blocks_input) = Inr two_blocks_B
   \<and> length (filter startsRecord_A (split_char CHR 0x0A two_blocks_input)) = 2
   \<and> length (filter startsRecord_B (split_char CHR 0x0A two_blocks_input)) = 2
   \<and> obj_get (two_blocks_A ! 0) ''nodeId'' = JStr (toString 1)
   \<and> obj_get (two_blocks_A ! 1) ''nodeId'' = JStr (toString 2)
   \<and> obj_get (two_blocks_B ! 0) ''nodeId'' = JStr (toString 1)
   \<and> obj_get (two_blocks_B ! 1) ''nodeId'' = JStr (toString 2)
   \<and> assignNodeIds_A (devicesOf step_A (split_char CHR 0x0A two_blocks_input)) = two_blocks_A
   \<and> assignNodeIds_B (devicesOf step_B (split_char CHR 0x0A two_blocks_input)) = two_blocks_B
   \<and> devicesOf step_A ([marker_line] @ marker_line # []) = devicesOf step_A [marker_line] @ devicesOf step_A [marker_line]
   \<and> devicesOf step_B ([marker_line] @ marker_line # []) = devicesOf step_B [marker_line] @ devicesOf step_B [marker_line]"
proof -
  note t = records_per_starting_line [of two_blocks_input marker_line "[marker_line]" "[]" marker_line]
  have pA: "parseDiscoveryResult_A (JStr two_blocks_input) = Inr two_blocks_A"
    by (simp add: parse_A_two_blocks two_blocks_A_def)
  have pB: "parseDiscoveryResult_B (JStr two_blocks_input) = Inr two_blocks_B"
    by (simp add: parse_B_two_blocks two_blocks_B_def)
  have lA: "length two_blocks_A = 2" and lB: "length two_blocks_B = 2"
    by (simp_all add: two_blocks_A_def two_blocks_B_def)
  from t pA have cA: "length two_blocks_A = length (filter startsRecord_A (split_char CHR 0x0A two_blocks_input))"
    and iA: "\<forall>i < length two_blocks_A. obj_get (two_blocks_A ! i) ''nodeId'' = JStr (toString (i + 1))"
    by auto
  from t pB have cB: "length two_blocks_B = length (filter startsRecord_B (split_char CHR 0x0A two_blocks_input))"
    and iB: "\<forall>i < length two_blocks_B. obj_get (two_blocks_B ! i) ''nodeId'' = JStr (toString (i + 1))"
    by auto
  from iA lA have nA: "obj_get (two_blocks_A ! 0) ''nodeId'' = JStr (toString 1)"
    "obj_get (two_blocks_A ! 1) ''nodeId'' = JStr (toString 2)"
    by (auto simp: numeral_2_eq_2)
  from iB lB have nB: "obj_get (two_blocks_B ! 0) ''nodeId'' = JStr (toString 1)"
    "obj_get (two_blocks_B ! 1) ''nodeId'' = JStr (toString 2)"
    by (auto simp: numeral_2_eq_2)
  from t two_blocks_not_blank pA pB
  have dA: "assignNodeIds_A (devicesOf step_A (split_char CHR 0x0A two_blocks_input)) = two_blocks_A"
    and dB: "assignNodeIds_B (devicesOf step_B (split_char CHR 0x0A two_blocks_input)) = two_blocks_B"
    by simp_all
  from t marker_line_starts
  have oA: "devicesOf step_A ([marker_line] @ marker_line # []) = devicesOf step_A [marker_line] @ devicesOf step_A [marker_line]"
    and oB: "devicesOf step_B ([marker_line] @ marker_line # []) = devicesOf step_B [marker_line] @ devicesOf step_B [marker_line]"
    by blast+
  from two_blocks_not_blank marker_line_starts pA pB cA cB lA lB nA nB dA dB oA oB
  show ?thesis by simp
qed

section \<open>Totality of the parser\<close>

text \<open>
  What the \<open>catch\<close> clauses do with an exception of the \<open>try\<close> block. Variant A
  returns the empty array whatever the argument was. Variant B returns it when the
  argument converts to a string, and lets the exception of the conversion out otherwise;
  the array \<open>[{toString: 1}]\<close> is such an argument.
\<close>

lemma catch_A: "tryBlock_A result = Inl ex \<Longrightarrow> parseDiscoveryResult_A result = Inr []"
  by (simp add: parseDiscoveryResult_A_def)

lemma catch_B:
  "tryBlock_B result = Inl ex \<Longrightarrow> js_toString result = Inr logged \<Longrightarrow>
     parseDiscoveryResult_B result = Inr []"
  "tryBlock_B result = Inl ex \<Longrightarrow> js_toString result = Inl ex' \<Longrightarrow>
     parseDiscoveryResult_B result = Inl ex'"
  by (simp_all add: parseDiscoveryResult_B_def interpolate_def)

lemma catch_B_number:
  "tryBlock_B (JNum ''5'') = Inl (TypeError msg_trim_not_function)
   \<and> parseDiscoveryResult_B (JNum ''5'') = Inr []"
  by (simp add: parseDiscoveryResult_B_def tryBlock_B_def interpolate_def)

lemma catch_B_unprintable:
  "tryBlock_B (JArr [JObj [(''toString'', JNum ''1'')]]) = Inl (TypeError msg_trim_not_function)
   \<and> parseDiscoveryResult_B (JArr [JObj [(''toString'', JNum ''1'')]])
       = Inl (TypeError msg_not_primitive)"
  by (simp add: parseDiscoveryResult_B_def tryBlock_B_def interpolate_def has_key_def)

text \<open>
  Claim C7. For every input string each variant returns an array and raises nothing:
  the \<open>try\<close> block itself raises nothing on a string, so the \<open>catch\<close> clause is not
  entered, and a blank string (empty, or white space only) gives the empty array.
\<close>

theorem parser_never_raises:
  "(\<exists>devices. parseDiscoveryResult_A (JStr s) = Inr devices)
   \<and> (\<exists>devices. parseDiscoveryResult_B (JStr s) = Inr devices)
   \<and> (\<exists>devices. tryBlock_A (JStr s) = Inr devices)
   \<and> (\<exists>devices. tryBlock_B (JStr s) = Inr devices)
   \<and> (trim s = [] \<longrightarrow> parseDiscoveryResult_A (JStr s) = Inr [] \<and> parseDiscoveryResult_B (JStr s) = Inr [])"
proof -
  have "\<exists>devices. parseDiscoveryResult_A (JStr s) = Inr devices"
    by (simp add: parse_A_string)
  moreover have "\<exists>devices. parseDiscoveryResult_B (JStr s) = Inr devices"
    by (simp add: parse_B_string)
  moreover have "\<exists>devices. tryBlock_A (JStr s) = Inr devices"
    using tryBlock_A_string [of s] by blast
  moreover have "\<exists>devices. tryBlock_B (JStr s) = Inr devices"
    using tryBlock_B_string [of s] by blast
  moreover have "trim s = [] \<longrightarrow> parseDiscoveryResult_A (JStr s) = Inr [] \<and> parseDiscoveryResult_B (JStr s) = Inr []"
    by (simp add: parse_A_string parse_B_string)
  ultimately show ?thesis by blast
qed

theorem parser_never_raises_witness:
  "trim blank_input = []
   \<and> tryBlock_A (JStr blank_input) = Inr []
   \<and> tryBlock_B (JStr blank_input) = Inr []
   \<and> parseDiscoveryResult_A (JStr blank_input) = Inr []
   \<and> parseDiscoveryResult_B (JStr blank_input) = Inr []"
proof -
  note t = parser_never_raises [of blank_input]
  from t blank_input_blank
  have p: "parseDiscoveryResult_A (JStr blank_input) = Inr []"
    "parseDiscoveryResult_B (JStr blank_input) = Inr []"
    by blast+
  from t obtain a b where ab: "tryBlock_A (JStr blank_input) = Inr a" "tryBlock_B (JStr blank_input) = Inr b"
    by blast
  with p have "a = []" "b = []"
    by (simp_all add: parseDiscoveryResult_A_def parseDiscoveryResult_B_def)
  with ab p blank_input_blank show ?thesis by simp
qed

section \<open>Identifiers are distinct\<close>

lemma digit_char_value: "d < 10 \<Longrightarrow> of_char (digit_char d) - 48 = d"
proof -
  assume "d < 10"
  then have "d \<in> {0, 1, 2, 3, 4, 5, 6, 7, 8, 9}" by auto
  then show ?thesis by (auto simp: digit_char_def)
qed

lemma decimal_value_snoc: "decimal_value (s @ [c]) = 10 * decimal_value s + (of_char c - 48)"
  by (simp add: decimal_value_def)

lemma decimal_value_toString: "decimal_value (toString n) = n"
proof (induction n rule: toString.induct)
  case (1 n)
  show ?case
  proof (cases "n < 10")
    case True
    then show ?thesis
      by (subst toString.simps) (simp add: decimal_value_def digit_char_value)
  next
    case False
    have "decimal_value (toString n) = 10 * decimal_value (toString (n div 10)) + (of_char (digit_char (n mod 10)) - 48)"
      using False by (subst toString.simps) (simp add: decimal_value_snoc)
    also have "\<dots> = 10 * (n div 10) + n mod 10"
      using False "1.IH" by (simp add: digit_char_value)
    finally show ?thesis by simp
  qed
qed

lemma toString_inj: "toString m = toString n \<Longrightarrow> m = n"
  by (metis decimal_value_toString)

lemma nodeIds_assignNodeIds_A:
  "map (\<lambda>d. obj_get d ''nodeId'') (assignNodeIds_A ds) = map (\<lambda>i. JStr (toString (i + 1))) [0..<length ds]"
  by (rule nth_equalityI) (simp_all add: assignNodeIds_A_nth obj_get_obj_set)

lemma nodeIds_assignNodeIds_B:
  "map (\<lambda>d. obj_get d ''nodeId'') (assignNodeIds_B ds) = map (\<lambda>i. JStr (toString (i + 1))) [0..<length ds]"
  by (rule nth_equalityI) (simp_all add: assignNodeIds_B_nth obj_get_obj_set)

lemma distinct_nodeIds: "distinct (map (\<lambda>i. JStr (toString (i + 1))) [0..<n])"
  by (auto simp: distinct_map inj_on_def dest: toString_inj)

lemma parse_A_nodeIds:
  assumes "parseDiscoveryResult_A result = Inr devices"
  shows "distinct (map (\<lambda>d. obj_get d ''nodeId'') devices)"
    and "\<forall>d \<in> set devices. is_primitive (obj_get d ''nodeId'')"
proof -
  from assms have "devices = assignNodeIds_A [] \<or> (\<exists>ds. devices = assignNodeIds_A ds)"
    by (auto simp: parseDiscoveryResult_A_def tryBlock_A_def assignNodeIds_A_def
        split: sum.splits if_splits jsval.splits)
  then obtain ds where "devices = assignNodeIds_A ds" by blast
  then have "map (\<lambda>d. obj_get d ''nodeId'') devices = map (\<lambda>i. JStr (toString (i + 1))) [0..<length ds]"
    by (simp only: nodeIds_assignNodeIds_A)
  then obtain n where n: "map (\<lambda>d. obj_get d ''nodeId'') devices = map (\<lambda>i. JStr (toString (i + 1))) [0..<n]"
    by blast
  show "distinct (map (\<lambda>d. obj_get d ''nodeId'') devices)"
    unfolding n by (rule distinct_nodeIds)
  have "\<forall>v \<in> set (map (\<lambda>d. obj_get d ''nodeId'') devices). is_primitive v"
    unfolding n by auto
  then show "\<forall>d \<in> set devices. is_primitive (obj_get d ''nodeId'')" by simp
qed

lemma parse_B_nodeIds:
  assumes "parseDiscoveryResult_B result = Inr devices"
  shows "distinct (map (\<lambda>d. obj_get d ''nodeId'') devices)"
    and "\<forall>d \<in> set devices. is_primitive (obj_get d ''nodeId'')"
proof -
  from assms have "devices = assignNodeIds_B [] \<or> (\<exists>ds. devices = assignNodeIds_B ds)"
    by (auto simp: parseDiscoveryResult_B_def tryBlock_B_def assignNodeIds_B_def
        split: sum.splits if_splits jsval.splits)
  then obtain ds where "devices = assignNodeIds_B ds" by blast
  then have "map (\<lambda>d. obj_get d ''nodeId'') devices = map (\<lambda>i. JStr (toString (i + 1))) [0..<length ds]"
    by (simp only: nodeIds_assignNodeIds_B)
  then obtain n where n: "map (\<lambda>d. obj_get d ''nodeId'') devices = map (\<lambda>i. JStr (toString (i + 1))) [0..<n]"
    by blast
  show "distinct (map (\<lambda>d. obj_get d ''nodeId'') devices)"
    unfolding n by (rule distinct_nodeIds)
  have "\<forall>v \<in> set (map (\<lambda>d. obj_get d ''nodeId'') devices). is_primitive v"
    unfolding n by auto
  then show "\<forall>d \<in> set devices. is_primitive (obj_get d ''nodeId'')" by simp
qed

section \<open>Registering the discovered devices\<close>

lemma registerDiscovered_snoc:
  "registerDiscovered t (ds @ [x]) m =
     map_set (registerDiscovered t ds m) (obj_get x ''nodeId'') (discoveredEntry t x)"
  by (simp add: registerDiscovered_def)

lemma registerDiscovered_lookup:
  assumes "distinct (map (\<lambda>d. obj_get d ''nodeId'') devices)"
      and "\<forall>d \<in> set devices. is_primitive (obj_get d ''nodeId'')"
      and "d \<in> set devices"
  shows "map_get (registerDiscovered t devices m) (obj_get d ''nodeId'') = Some (discoveredEntry t d)"
  using assms
proof (induction devices rule: rev_induct)
  case Nil
  then show ?case by simp
next
  case (snoc x ds)
  show ?case
  proof (cases "d = x")
    case True
    with snoc.prems(2) show ?thesis
      by (simp add: registerDiscovered_snoc map_get_map_set)
  next
    case False
    with snoc.prems(3) have d: "d \<in> set ds" by simp
    from snoc.prems(1) have "obj_get x ''nodeId'' \<notin> (\<lambda>d. obj_get d ''nodeId'') ` set ds" by simp
    with d have "obj_get d ''nodeId'' \<noteq> obj_get x ''nodeId''" by (metis imageI)
    moreover have "map_get (registerDiscovered t ds m) (obj_get d ''nodeId'') = Some (discoveredEntry t d)"
      using snoc.IH snoc.prems(1,2) d by simp
    ultimately show ?thesis
      by (simp add: registerDiscovered_snoc map_get_map_set)
  qed
qed

lemma discoveredEntry_fields:
  "obj_get (discoveredEntry t d) ''status'' = JStr ''discovered''"
  "k \<noteq> ''status'' \<Longrightarrow> k \<noteq> ''timestamp'' \<Longrightarrow> obj_get (discoveredEntry t d) k = obj_get d k"
  by (simp_all add: discoveredEntry_def obj_get_obj_set)

lemma device_search_success:
  assumes "run e ''discover commissionables'' = Inr out" and "parse (JStr out) = Inr devices"
  shows "deviceState (snd (device_search parse e st)) = registerDiscovered (now e) devices (deviceState st)"
  using assms by (simp add: device_search_def execute_def)

lemma search_roundtrip:
  assumes "run e ''discover commissionables'' = Inr out"
      and "parse (JStr out) = Inr devices"
      and "distinct (map (\<lambda>d. obj_get d ''nodeId'') devices)"
      and "\<forall>d \<in> set devices. is_primitive (obj_get d ''nodeId'')"
      and "d \<in> set devices"
  shows "\<exists>entry. map_get (deviceState (snd (device_search parse e st))) (obj_get d ''nodeId'') = Some entry
           \<and> obj_get entry ''status'' = JStr ''discovered''
           \<and> (\<forall>k \<in> set discovery_fields. obj_get entry k = obj_get d k)
           \<and> (\<forall>k. k \<noteq> ''status'' \<and> k \<noteq> ''timestamp'' \<longrightarrow> obj_get entry k = obj_get d k)"
proof -
  have "map_get (deviceState (snd (device_search parse e st))) (obj_get d ''nodeId'')
          = Some (discoveredEntry (now e) d)"
    using registerDiscovered_lookup [OF assms(3,4,5)]
    by (simp add: device_search_success [where parse = parse, OF assms(1,2)])
  moreover have "\<forall>k \<in> set discovery_fields. obj_get (discoveredEntry (now e) d) k = obj_get d k"
    by (simp add: discovery_fields_def discoveredEntry_fields)
  moreover have "obj_get (discoveredEntry (now e) d) ''status'' = JStr ''discovered''"
    by (rule discoveredEntry_fields(1))
  moreover have "\<forall>k. k \<noteq> ''status'' \<and> k \<noteq> ''timestamp'' \<longrightarrow>
      obj_get (discoveredEntry (now e) d) k = obj_get d k"
    by (simp add: discoveredEntry_fields(2))
  ultimately show ?thesis by blast
qed

text \<open>
  Claim C9. After a discovery scan whose output the parser of the service turns into
  \<open>devices\<close>, every one of these records is found in the registry under its own
  \<open>nodeId\<close>; the entry has the status \<open>discovered\<close> and agrees with the record on every
  key other than \<open>status\<close> and \<open>timestamp\<close>, so in particular on the nine discovery
  fields. This holds for the search handler of the service with variant A and for the one
  of the service with variant B, each with its own parser and whatever the other parser
  makes of the same output.
\<close>

theorem discovered_roundtrip:
  "(run e ''discover commissionables'' = Inr out
      \<and> parseDiscoveryResult_A (JStr out) = Inr devices \<and> d \<in> set devices \<longrightarrow>
    (\<exists>entry. map_get (deviceState (snd (device_search_A e st))) (obj_get d ''nodeId'') = Some entry
       \<and> obj_get entry ''status'' = JStr ''discovered''
       \<and> (\<forall>k \<in> set discovery_fields. obj_get entry k = obj_get d k)
       \<and> (\<forall>k. k \<noteq> ''status'' \<and> k \<noteq> ''timestamp'' \<longrightarrow> obj_get entry k = obj_get d k)))
   \<and> (run e' ''discover commissionables'' = Inr out'
      \<and> parseDiscoveryResult_B (JStr out') = Inr devices' \<and> d' \<in> set devices' \<longrightarrow>
    (\<exists>entry. map_get (deviceState (snd (device_search_B e' st'))) (obj_get d' ''nodeId'') = Some entry
       \<and> obj_get entry ''status'' = JStr ''discovered''
       \<and> (\<forall>k \<in> set discovery_fields. obj_get entry k = obj_get d' k)
       \<and> (\<forall>k. k \<noteq> ''status'' \<and> k \<noteq> ''timestamp'' \<longrightarrow> obj_get entry k = obj_get d' k)))"
proof (intro conjI impI; elim conjE)
  assume h: "run e ''discover commissionables'' = Inr out"
    "parseDiscoveryResult_A (JStr out) = Inr devices" "d \<in> set devices"
  show "\<exists>entry. map_get (deviceState (snd (device_search_A e st))) (obj_get d ''nodeId'') = Some entry
       \<and> obj_get entry ''status'' = JStr ''discovered''
       \<and> (\<forall>k \<in> set discovery_fields. obj_get entry k = obj_get d k)
       \<and> (\<forall>k. k \<noteq> ''status'' \<and> k \<noteq> ''timestamp'' \<longrightarrow> obj_get entry k = obj_get d k)"
    unfolding device_search_A_def
    by (rule search_roundtrip [where parse = parseDiscoveryResult_A and st = st,
          OF h(1,2) parse_A_nodeIds [OF h(2)] h(3)])
next
  assume h: "run e' ''discover commissionables'' = Inr out'"
    "parseDiscoveryResult_B (JStr out') = Inr devices'" "d' \<in> set devices'"
  show "\<exists>entry. map_get (deviceState (snd (device_search_B e' st'))) (obj_get d' ''nodeId'') = Some entry
       \<and> obj_get entry ''status'' = JStr ''discovered''
       \<and> (\<forall>k \<in> set discovery_fields. obj_get entry k = obj_get d' k)
       \<and> (\<forall>k. k \<noteq> ''status'' \<and> k \<noteq> ''timestamp'' \<longrightarrow> obj_get entry k = obj_get d' k)"
    unfolding device_search_B_def
    by (rule search_roundtrip [where parse = parseDiscoveryResult_B and st = st',
          OF h(1,2) parse_B_nodeIds [OF h(2)] h(3)])
qed

text \<open>
  The instance: variant A on the scenario as the specification prints it, of which
  variant B makes nothing, and variant B on the tagged scenario.
\<close>

theorem discovered_roundtrip_witness:
  "parseDiscoveryResult_B (JStr scenario_input) = Inr []
   \<and> (\<exists>entry. map_get (deviceState (snd (device_search_A plain_env empty_state))) (JStr ''1'') = Some entry
      \<and> obj_get entry ''status'' = JStr ''discovered''
      \<and> obj_get entry ''name'' = JStr ''light1''
      \<and> obj_get entry ''addresses'' = JArr [JStr ''192.168.1.50'']
      \<and> obj_get entry ''port'' = JStr ''5540''
      \<and> obj_get entry ''vendorId'' = JStr ''0xFFF1'')
   \<and> (\<exists>entry. map_get (deviceState (snd (device_search_B scan_env empty_state))) (JStr ''1'') = Some entry
      \<and> obj_get entry ''status'' = JStr ''discovered''
      \<and> obj_get entry ''name'' = JStr ''light1''
      \<and> obj_get entry ''addresses'' = JArr [JStr ''192.168.1.50'']
      \<and> obj_get entry ''port'' = JStr ''5540''
      \<and> obj_get entry ''vendorId'' = JStr ''0xFFF1'')"
proof -
  have h0: "run plain_env ''discover commissionables'' = Inr scenario_input"
    by (simp add: plain_env_def)
  have h1: "run scan_env ''discover commissionables'' = Inr scenario_tagged"
    by (simp add: scan_env_def)
  have h4: "light1_A \<in> set [light1_A]" and h5: "light1_B \<in> set [light1_B]"
    by simp_all
  note t = discovered_roundtrip [of plain_env scenario_input "[light1_A]" light1_A empty_state
      scan_env scenario_tagged "[light1_B]" light1_B empty_state]
  have fa: "obj_get light1_A ''nodeId'' = JStr ''1''" "obj_get light1_A ''name'' = JStr ''light1''"
    "obj_get light1_A ''addresses'' = JArr [JStr ''192.168.1.50'']"
    "obj_get light1_A ''port'' = JStr ''5540''" "obj_get light1_A ''vendorId'' = JStr ''0xFFF1''"
    by (simp_all add: light1_A_def obj_get_def)
  have fb: "obj_get light1_B ''nodeId'' = JStr ''1''" "obj_get light1_B ''name'' = JStr ''light1''"
    "obj_get light1_B ''addresses'' = JArr [JStr ''192.168.1.50'']"
    "obj_get light1_B ''port'' = JStr ''5540''" "obj_get light1_B ''vendorId'' = JStr ''0xFFF1''"
    by (simp_all add: light1_B_def obj_get_def)
  from t [THEN conjunct1, rule_format, OF conjI [OF h0 conjI [OF parse_A_scenario h4]]]
  obtain ea where ea:
    "map_get (deviceState (snd (device_search_A plain_env empty_state))) (obj_get light1_A ''nodeId'') = Some ea"
    "obj_get ea ''status'' = JStr ''discovered''"
    "\<forall>k. k \<noteq> ''status'' \<and> k \<noteq> ''timestamp'' \<longrightarrow> obj_get ea k = obj_get light1_A k"
    by (elim exE conjE)
  from t [THEN conjunct2, rule_format, OF conjI [OF h1 conjI [OF parse_B_scenario_tagged h5]]]
  obtain eb where eb:
    "map_get (deviceState (snd (device_search_B scan_env empty_state))) (obj_get light1_B ''nodeId'') = Some eb"
    "obj_get eb ''status'' = JStr ''discovered''"
    "\<forall>k. k \<noteq> ''status'' \<and> k \<noteq> ''timestamp'' \<longrightarrow> obj_get eb k = obj_get light1_B k"
    by (elim exE conjE)
  have a: "obj_get ea ''name'' = JStr ''light1''" "obj_get ea ''addresses'' = JArr [JStr ''192.168.1.50'']"
    "obj_get ea ''port'' = JStr ''5540''" "obj_get ea ''vendorId'' = JStr ''0xFFF1''"
    using ea(3) [rule_format, of "''name''"] ea(3) [rule_format, of "''addresses''"]
      ea(3) [rule_format, of "''port''"] ea(3) [rule_format, of "''vendorId''"]
    by (simp_all add: fa)
  have b: "obj_get eb ''name'' = JStr ''light1''" "obj_get eb ''addresses'' = JArr [JStr ''192.168.1.50'']"
    "obj_get eb ''port'' = JStr ''5540''" "obj_get eb ''vendorId'' = JStr ''0xFFF1''"
    using eb(3) [rule_format, of "''name''"] eb(3) [rule_format, of "''addresses''"]
      eb(3) [rule_format, of "''port''"] eb(3) [rule_format, of "''vendorId''"]
    by (simp_all add: fb)
  have "\<exists>entry. map_get (deviceState (snd (device_search_A plain_env empty_state))) (JStr ''1'') = Some entry
      \<and> obj_get entry ''status'' = JStr ''discovered''
      \<and> obj_get entry ''name'' = JStr ''light1''
      \<and> obj_get entry ''addresses'' = JArr [JStr ''192.168.1.50'']
      \<and> obj_get entry ''port'' = JStr ''5540''
      \<and> obj_get entry ''vendorId'' = JStr ''0xFFF1''"
    using ea(1,2) a unfolding fa(1) by blast
  moreover have "\<exists>entry. map_get (deviceState (snd (device_search_B scan_env empty_state))) (JStr ''1'') = Some entry
      \<and> obj_get entry ''status'' = JStr ''discovered''
      \<and> obj_get entry ''name'' = JStr ''light1''
      \<and> obj_get entry ''addresses'' = JArr [JStr ''192.168.1.50'']
      \<and> obj_get entry ''port'' = JStr ''5540''
      \<and> obj_get entry ''vendorId'' = JStr ''0xFFF1''"
    using eb(1,2) b unfolding fb(1) by blast
  ultimately show ?thesis using parse_B_scenario by blast
qed

section \<open>Escape sequences\<close>

lemma lit_Some: "lit c s = Some r \<longleftrightarrow> s = c # r"
  by (cases s) (auto simp: lit_def)

lemma matchAnsi_Some:
  "matchAnsi s = Some r \<longleftrightarrow> (\<exists>a. s = ESC # CHR ''['' # a \<and> dropWhile is_sgr_param a = CHR ''m'' # r)"
  unfolding matchAnsi_def bind_eq_Some_conv lit_Some many0_def by auto

lemma dropWhile_suffix: "\<exists>pre. xs = pre @ dropWhile P xs"
  by (metis takeWhile_dropWhile_id)

lemma matchAnsi_suffix: "matchAnsi s = Some r \<Longrightarrow> \<exists>pre. s = pre @ r"
proof -
  assume "matchAnsi s = Some r"
  then obtain a where s: "s = ESC # CHR ''['' # a" and d: "dropWhile is_sgr_param a = CHR ''m'' # r"
    by (auto simp: matchAnsi_Some)
  obtain pre where "a = pre @ dropWhile is_sgr_param a" using dropWhile_suffix by blast
  with d have "a = (pre @ [CHR ''m'']) @ r" by simp
  with s have "s = (ESC # CHR ''['' # pre @ [CHR ''m'']) @ r" by simp
  then show ?thesis by blast
qed

lemma matchAnsi_truncate:
  assumes "matchAnsi (xs @ y # ys) = Some r" and "\<not> ansi_char y"
  shows "\<exists>r'. matchAnsi xs = Some r'"
proof -
  from assms(1) obtain a where s: "xs @ y # ys = ESC # CHR ''['' # a"
      and d: "dropWhile is_sgr_param a = CHR ''m'' # r"
    by (auto simp: matchAnsi_Some)
  from assms(2) have y: "y \<noteq> ESC" "y \<noteq> CHR ''[''" "\<not> is_sgr_param y" "y \<noteq> CHR ''m''"
    by (simp_all add: ansi_char_def)
  from s y obtain b where xs: "xs = ESC # CHR ''['' # b" and a: "a = b @ y # ys"
    by (cases xs; cases "tl xs") auto
  show ?thesis
  proof (cases "\<forall>c \<in> set b. is_sgr_param c")
    case True
    then have "dropWhile is_sgr_param a = y # ys"
      using a y(3) by (simp add: dropWhile_append2)
    with d y(4) show ?thesis by simp
  next
    case False
    then obtain c where "c \<in> set b" "\<not> is_sgr_param c" by blast
    then have "dropWhile is_sgr_param a = dropWhile is_sgr_param b @ y # ys"
      using a by (simp add: dropWhile_append1)
    moreover have "dropWhile is_sgr_param b \<noteq> []"
      using False by (simp add: dropWhile_eq_Nil_conv)
    ultimately obtain r' where "dropWhile is_sgr_param b = CHR ''m'' # r'"
      using d by (cases "dropWhile is_sgr_param b") auto
    with xs show ?thesis by (auto simp: matchAnsi_Some)
  qed
qed

lemma well_escaped_suffix: "well_escaped (xs @ ys) \<Longrightarrow> well_escaped ys"
  by (induction xs) auto

lemma well_escaped_truncate:
  "well_escaped (xs @ y # ys) \<Longrightarrow> \<not> ansi_char y \<Longrightarrow> well_escaped xs"
proof (induction xs)
  case Nil
  then show ?case by simp
next
  case (Cons c cs)
  from Cons.prems have tail: "well_escaped (cs @ y # ys)" by simp
  have "c \<noteq> ESC \<or> matchAnsi (c # cs) \<noteq> None"
  proof (cases "c = ESC")
    case True
    with Cons.prems(1) obtain r where "matchAnsi ((c # cs) @ y # ys) = Some r" by auto
    from matchAnsi_truncate [OF this Cons.prems(2)] show ?thesis by auto
  next
    case False
    then show ?thesis by simp
  qed
  with Cons.IH [OF tail Cons.prems(2)] show ?case by simp
qed

lemma space_not_ansi: "is_space c \<Longrightarrow> \<not> ansi_char c"
  by (auto simp: is_space_def ansi_char_def ESC_def is_sgr_param_def)

lemma well_escaped_dropWhile: "well_escaped s \<Longrightarrow> well_escaped (dropWhile P s)"
  using dropWhile_suffix [of s P] well_escaped_suffix by metis

lemma well_escaped_drop_trailing:
  assumes "well_escaped s"
  shows "well_escaped (rev (dropWhile is_space (rev s)))"
proof -
  have s: "s = rev (dropWhile is_space (rev s)) @ rev (takeWhile is_space (rev s))"
    by (metis rev_append rev_rev_ident takeWhile_dropWhile_id)
  show ?thesis
  proof (cases "rev (takeWhile is_space (rev s))")
    case Nil
    with s assms show ?thesis by simp
  next
    case (Cons y ys)
    then have "y \<in> set (takeWhile is_space (rev s))"
      by (metis list.set_intros(1) set_rev)
    then have "is_space y" by (rule set_takeWhileD [THEN conjunct2])
    then have "\<not> ansi_char y" by (rule space_not_ansi)
    moreover have "well_escaped (rev (dropWhile is_space (rev s)) @ y # ys)"
      using s Cons assms by simp
    ultimately show ?thesis by (rule well_escaped_truncate [rotated])
  qed
qed

lemma well_escaped_trim: "well_escaped s \<Longrightarrow> well_escaped (trim s)"
  unfolding trim_def by (intro well_escaped_drop_trailing well_escaped_dropWhile)

lemma split_char_not_Nil: "split_char c s \<noteq> []"
  by (induction s) (auto split: list.splits)

lemma split_char_hd:
  "split_char c s = p # ps \<Longrightarrow> \<exists>post. s = p @ post \<and> (post = [] \<or> (\<exists>q. post = c # q))"
proof (induction s arbitrary: p ps)
  case Nil
  then show ?case by simp
next
  case (Cons x xs)
  show ?case
  proof (cases "x = c")
    case True
    with Cons.prems have "p = []" by simp
    with True show ?thesis by simp
  next
    case False
    obtain p' ps' where sp: "split_char c xs = p' # ps'"
      using split_char_not_Nil by (metis list.exhaust)
    with False Cons.prems have p: "p = x # p'" by simp
    from Cons.IH [OF sp] obtain post where "xs = p' @ post" "post = [] \<or> (\<exists>q. post = c # q)"
      by blast
    with p show ?thesis by auto
  qed
qed

lemma split_char_decomp:
  "l \<in> set (split_char c s) \<Longrightarrow>
     \<exists>pre post. s = pre @ l @ post \<and> (post = [] \<or> (\<exists>q. post = c # q))"
proof (induction s arbitrary: l)
  case Nil
  then show ?case by simp
next
  case (Cons x xs)
  obtain p ps where sp: "split_char c xs = p # ps"
    using split_char_not_Nil by (metis list.exhaust)
  show ?case
  proof (cases "x = c")
    case True
    with Cons.prems have "l = [] \<or> l \<in> set (split_char c xs)" by simp
    then show ?thesis
    proof
      assume "l = []"
      with True have "x # xs = [] @ l @ (c # xs)" by simp
      then show ?thesis by blast
    next
      assume "l \<in> set (split_char c xs)"
      from Cons.IH [OF this] obtain pre post where "xs = pre @ l @ post"
          "post = [] \<or> (\<exists>q. post = c # q)" by blast
      then have "x # xs = (x # pre) @ l @ post \<and> (post = [] \<or> (\<exists>q. post = c # q))" by simp
      then show ?thesis by blast
    qed
  next
    case False
    with Cons.prems sp have "l = x # p \<or> l \<in> set ps" by simp
    then show ?thesis
    proof
      assume l: "l = x # p"
      from split_char_hd [OF sp] obtain post where "xs = p @ post" "post = [] \<or> (\<exists>q. post = c # q)"
        by blast
      with l have "x # xs = [] @ l @ post \<and> (post = [] \<or> (\<exists>q. post = c # q))" by simp
      then show ?thesis by blast
    next
      assume "l \<in> set ps"
      with sp have "l \<in> set (split_char c xs)" by simp
      from Cons.IH [OF this] obtain pre post where "xs = pre @ l @ post"
          "post = [] \<or> (\<exists>q. post = c # q)" by blast
      then have "x # xs = (x # pre) @ l @ post \<and> (post = [] \<or> (\<exists>q. post = c # q))" by simp
      then show ?thesis by blast
    qed
  qed
qed

lemma newline_not_ansi: "\<not> ansi_char CHR 0x0A"
  by (simp add: ansi_char_def ESC_def is_sgr_param_def)

lemma well_escaped_line:
  assumes "well_escaped s" and "l \<in> set (split_char CHR 0x0A s)"
  shows "well_escaped l"
proof -
  from split_char_decomp [OF assms(2)] obtain pre post where s: "s = pre @ l @ post"
      and post: "post = [] \<or> (\<exists>q. post = CHR 0x0A # q)"
    by blast
  from assms(1) s have w: "well_escaped (l @ post)" using well_escaped_suffix by blast
  from post show ?thesis
  proof
    assume "post = []"
    with w show ?thesis by simp
  next
    assume "\<exists>q. post = CHR 0x0A # q"
    then obtain q where "post = CHR 0x0A # q" by blast
    with w have "well_escaped (l @ CHR 0x0A # q)" by simp
    then show ?thesis using newline_not_ansi by (rule well_escaped_truncate)
  qed
qed

section \<open>What one pass of removal leaves\<close>

lemma set_removeAnsiEscapes: "set (removeAnsiEscapes s) \<subseteq> set s"
proof (induction s rule: removeAnsiEscapes.induct)
  case (1 s)
  show ?case
  proof (cases s)
    case Nil
    then show ?thesis by (subst removeAnsiEscapes.simps) simp
  next
    case (Cons c cs)
    show ?thesis
    proof (cases "matchAnsi s")
      case None
      with Cons "1.IH"(1) [OF Cons None] show ?thesis
        by (subst removeAnsiEscapes.simps) auto
    next
      case (Some rest)
      from matchAnsi_suffix [OF Some] have "set rest \<subseteq> set s" by auto
      with Cons Some "1.IH"(2) [OF Cons Some] show ?thesis
        by (subst removeAnsiEscapes.simps) auto
    qed
  qed
qed

lemma removeAnsiEscapes_no_ESC: "well_escaped s \<Longrightarrow> ESC \<notin> set (removeAnsiEscapes s)"
proof (induction s rule: removeAnsiEscapes.induct)
  case (1 s)
  show ?case
  proof (cases s)
    case Nil
    then show ?thesis by (subst removeAnsiEscapes.simps) simp
  next
    case (Cons c cs)
    show ?thesis
    proof (cases "matchAnsi s")
      case None
      with Cons "1.prems" have c: "c \<noteq> ESC" and cs: "well_escaped cs" by auto
      from "1.IH"(1) [OF Cons None cs] c Cons None show ?thesis
        by (subst removeAnsiEscapes.simps) auto
    next
      case (Some rest)
      from matchAnsi_suffix [OF Some] "1.prems" have "well_escaped rest"
        using well_escaped_suffix by blast
      from "1.IH"(2) [OF Cons Some this] Cons Some show ?thesis
        by (subst removeAnsiEscapes.simps) auto
    qed
  qed
qed

lemma containsAnsi_ESC: "containsAnsi s \<Longrightarrow> ESC \<in> set s"
  by (induction s) (auto simp: matchAnsi_Some)

lemma cleanLine_B_no_ESC:
  assumes "well_escaped s" and "line \<in> set (split_char CHR 0x0A s)"
  shows "ESC \<notin> set (removeAnsiEscapes (trim line))"
  by (intro removeAnsiEscapes_no_ESC well_escaped_trim well_escaped_line [OF assms])

section \<open>Field values are pieces of the cleaned line\<close>

lemma set_trim: "set (trim s) \<subseteq> set s"
  by (auto simp: trim_def dest!: set_dropWhileD)

lemma set_join: "set (join sep ps) \<subseteq> set sep \<union> \<Union> (set ` set ps)"
  by (induction sep ps rule: join.induct) auto

lemma set_split_str: "p \<in> set (split_str sep s) \<Longrightarrow> set p \<subseteq> set s"
proof (induction sep s arbitrary: p rule: split_str.induct)
  case (1 sep s)
  show ?case
  proof (cases "sep = []")
    case True
    with "1.prems" show ?thesis by (subst (asm) split_str.simps) auto
  next
    case sep: False
    show ?thesis
    proof (cases "startsWith s sep")
      case True
      with sep "1.prems" have "p = [] \<or> p \<in> set (split_str sep (drop (length sep) s))"
        by (subst (asm) split_str.simps) auto
      then show ?thesis
      proof
        assume "p = []" then show ?thesis by simp
      next
        assume "p \<in> set (split_str sep (drop (length sep) s))"
        from "1.IH"(1) [OF sep True this] have "set p \<subseteq> set (drop (length sep) s)" .
        also have "\<dots> \<subseteq> set s" by (rule set_drop_subset)
        finally show ?thesis .
      qed
    next
      case False
      show ?thesis
      proof (cases s)
        case Nil
        with sep False "1.prems" show ?thesis by (subst (asm) split_str.simps) auto
      next
        case (Cons c cs)
        note IH = "1.IH"(2) [OF sep False Cons]
        from sep False Cons "1.prems"
        have "(\<exists>q qs. split_str sep cs = q # qs \<and> (p = c # q \<or> p \<in> set qs)) \<or> p = [c]"
          by (subst (asm) split_str.simps) (auto split: list.splits)
        then show ?thesis
        proof
          assume "\<exists>q qs. split_str sep cs = q # qs \<and> (p = c # q \<or> p \<in> set qs)"
          then obtain q qs where sp: "split_str sep cs = q # qs" and p: "p = c # q \<or> p \<in> set qs"
            by blast
          have q: "set q \<subseteq> set cs" using IH [of q] sp by simp
          have qs: "\<And>r. r \<in> set qs \<Longrightarrow> set r \<subseteq> set cs" using IH sp by simp
          from p q qs Cons show ?thesis by auto
        next
          assume "p = [c]"
          with Cons show ?thesis by simp
        qed
      qed
    qed
  qed
qed

lemma extractValue_B_no_ESC:
  assumes "ESC \<notin> set cl"
  shows "ESC \<notin> set (extractValue_B cl key)"
proof (cases "split_str (key @ '':'') cl")
  case Nil
  then show ?thesis by (simp add: extractValue_B_def)
next
  case (Cons p0 rest)
  show ?thesis
  proof (cases rest)
    case Nil
    with Cons show ?thesis by (simp add: extractValue_B_def)
  next
    case (Cons p1 ps)
    with \<open>split_str (key @ '':'') cl = p0 # rest\<close>
    have sp: "split_str (key @ '':'') cl = p0 # p1 # ps" by simp
    then have "p1 \<in> set (split_str (key @ '':'') cl)" by simp
    then have "set p1 \<subseteq> set cl" by (rule set_split_str)
    then have "set (removeAnsiEscapes (trim p1)) \<subseteq> set cl"
      using set_removeAnsiEscapes [of "trim p1"] set_trim [of p1] by blast
    with assms sp show ?thesis by (auto simp: extractValue_B_def)
  qed
qed

lemma ipAddress_B_no_ESC:
  assumes "ESC \<notin> set cl" and "ipAddress_B cl = Inr a"
  shows "ESC \<notin> set a"
proof -
  from assms(2) obtain p0 p1 ps where sp: "split_str ''IP Address #'' cl = p0 # p1 # ps"
      and a: "a = trim (join '':'' (tl (split_char CHR '':'' p1)))"
    by (auto simp: ipAddress_B_def split: list.splits)
  from sp have "p1 \<in> set (split_str ''IP Address #'' cl)" by simp
  then have p1: "set p1 \<subseteq> set cl" by (rule set_split_str)
  have "\<And>q. q \<in> set (tl (split_char CHR '':'' p1)) \<Longrightarrow> set q \<subseteq> set p1"
    using set_split_char by (metis list.set_sel(2) tl_Nil)
  then have "\<Union> (set ` set (tl (split_char CHR '':'' p1))) \<subseteq> set p1" by blast
  then have "set (join '':'' (tl (split_char CHR '':'' p1))) \<subseteq> set '':'' \<union> set p1"
    using set_join [of "'':''" "tl (split_char CHR '':'' p1)"] by blast
  then have "set a \<subseteq> set '':'' \<union> set cl"
    using a set_trim [of "join '':'' (tl (split_char CHR '':'' p1))"] p1 by blast
  with assms(1) show ?thesis by (auto simp: ESC_def)
qed

lemma toString_digits: "set (toString n) \<subseteq> set ''0123456789''"
proof (induction n rule: toString.induct)
  case (1 n)
  have d: "\<And>k. k < 10 \<Longrightarrow> digit_char k \<in> set ''0123456789''"
    unfolding digit_char_def by (rule nth_mem) simp
  show ?case
  proof (cases "n < 10")
    case True
    with d [of n] show ?thesis by (subst toString.simps) simp
  next
    case False
    have "n mod 10 < 10" by simp
    with False "1.IH" d [of "n mod 10"] show ?thesis
      by (subst toString.simps) simp
  qed
qed

lemma toString_no_ESC: "ESC \<notin> set (toString n)"
  using toString_digits [of n] by (auto simp: ESC_def)

section \<open>Records free of escape characters\<close>

lemma obj_get_cases: "obj_get ob k = JUndefined \<or> (k, obj_get ob k) \<in> set ob"
  by (auto simp: obj_get_def split: option.splits dest: map_of_SomeD)

lemma esc_clean_fresh: "esc_clean freshDevice_B"
proof -
  have all: "\<forall>(k, v) \<in> set freshDevice_B. all_strings (\<lambda>v. ESC \<notin> set v) v"
    by (simp add: freshDevice_B_def all_strings_def ESC_def)
  have "all_strings (\<lambda>v. ESC \<notin> set v) (obj_get freshDevice_B k)" for k
  proof -
    from obj_get_cases [of freshDevice_B k] show ?thesis
    proof
      assume "obj_get freshDevice_B k = JUndefined"
      then show ?thesis by (simp add: all_strings_def)
    next
      assume "(k, obj_get freshDevice_B k) \<in> set freshDevice_B"
      with all show ?thesis by blast
    qed
  qed
  then show ?thesis by (simp add: esc_clean_def)
qed

lemma esc_clean_obj_set:
  "esc_clean d \<Longrightarrow> all_strings (\<lambda>v. ESC \<notin> set v) v \<Longrightarrow> esc_clean (obj_set d k v)"
  by (simp add: esc_clean_def obj_get_obj_set)

lemma esc_clean_push:
  assumes "esc_clean d" and "obj_get d ''addresses'' = JArr xs" and "ESC \<notin> set a"
  shows "esc_clean (obj_set d ''addresses'' (JArr (xs @ [JStr a])))"
proof (rule esc_clean_obj_set [OF assms(1)])
  from assms(1) have "all_strings (\<lambda>v. ESC \<notin> set v) (obj_get d ''addresses'')"
    by (simp add: esc_clean_def)
  with assms(2,3) show "all_strings (\<lambda>v. ESC \<notin> set v) (JArr (xs @ [JStr a]))"
    by (simp add: all_strings_def)
qed

lemma fieldLine_B_esc_clean:
  assumes "ESC \<notin> set cl" and "esc_clean d" and "fieldLine_B d cl = Inr d'"
  shows "esc_clean d'"
proof -
  from fieldLine_B_cases [OF assms(3)]
  consider "d' = d"
    | k key where "d' = obj_set d k (JStr (extractValue_B cl key))"
    | xs a where "obj_get d ''addresses'' = JArr xs" "ipAddress_B cl = Inr a"
        "d' = obj_set d ''addresses'' (JArr (xs @ [JStr a]))"
    by blast
  then show ?thesis
  proof cases
    case 1
    with assms(2) show ?thesis by simp
  next
    case 2
    have "all_strings (\<lambda>v. ESC \<notin> set v) (JStr (extractValue_B cl key))"
      using extractValue_B_no_ESC [OF assms(1)] by (simp add: all_strings_def)
    with 2 assms(2) show ?thesis by (simp add: esc_clean_obj_set)
  next
    case 3
    from ipAddress_B_no_ESC [OF assms(1) 3(2)] 3(1,3) assms(2) show ?thesis
      by (simp add: esc_clean_push)
  qed
qed

lemma parse_B_esc_clean:
  assumes "well_escaped s" and "parseDiscoveryResult_B (JStr s) = Inr devices" and "d \<in> set devices"
  shows "esc_clean d"
proof (rule parse_B_invariant [where P = esc_clean, OF _ _ _ assms(2,3)])
  show "esc_clean freshDevice_B" by (rule esc_clean_fresh)
next
  fix s' line d d'
  assume "JStr s = JStr s'" and line: "line \<in> set (split_char CHR 0x0A s')"
    and d: "esc_clean d" and f: "fieldLine_B d (removeAnsiEscapes (trim line)) = Inr d'"
  then have "line \<in> set (split_char CHR 0x0A s)" by simp
  from cleanLine_B_no_ESC [OF assms(1) this] d f show "esc_clean d'"
    by (rule fieldLine_B_esc_clean)
next
  fix d n assume "esc_clean d"
  then show "esc_clean (obj_set d ''nodeId'' (JStr (toString n)))"
    by (rule esc_clean_obj_set) (simp add: all_strings_def toString_no_ESC)
qed

lemma all_strings_mono:
  "(\<And>s. P s \<Longrightarrow> Q s) \<Longrightarrow> all_strings P v \<Longrightarrow> all_strings Q v"
  by (auto simp: all_strings_def split: jsval.splits)

lemma parse_A_coloured: "parseDiscoveryResult_A (JStr coloured_input) = Inr [coloured_A]"
  unfolding coloured_input_def coloured_A_def coloured_name_def by code_simp

lemma parse_B_coloured: "parseDiscoveryResult_B (JStr coloured_input) = Inr [coloured_B]"
  unfolding coloured_input_def coloured_B_def by code_simp

lemma parse_B_nested: "parseDiscoveryResult_B (JStr nested_input) = Inr [nested_B]"
  unfolding nested_input_def nested_B_def nested_address_def by code_simp

lemma coloured_well_escaped: "well_escaped coloured_input"
  unfolding coloured_input_def by code_simp

lemma coloured_has_sequences: "containsAnsi coloured_input" "containsAnsi coloured_name"
  "containsAnsi nested_address"
  unfolding coloured_input_def coloured_name_def nested_address_def by code_simp+

text \<open>
  Claim C6, as stated, fails on both variants. Variant A removes no escape sequence, so a
  coloured host name keeps its sequences. Variant B removes the sequences in one pass, and
  a sequence standing inside the pieces of another one is only put together by that pass.
\<close>

theorem escape_sequences_survive:
  "parseDiscoveryResult_A (JStr coloured_input) = Inr [coloured_A]
   \<and> obj_get coloured_A ''name'' = JStr coloured_name
   \<and> containsAnsi coloured_name
   \<and> parseDiscoveryResult_B (JStr nested_input) = Inr [nested_B]
   \<and> obj_get nested_B ''addresses'' = JArr [JStr nested_address]
   \<and> containsAnsi nested_address"
  by (simp add: parse_A_coloured parse_B_nested coloured_has_sequences coloured_A_def nested_B_def
      obj_get_obj_set)

text \<open>
  Claim C6, amended. For every input in which each escape character begins a complete
  colour sequence, no value in a record returned by variant B, be it a string field or an
  entry of \<open>addresses\<close>, contains an escape character, hence none contains a colour
  sequence.
\<close>

theorem escape_free_fields:
  assumes "well_escaped s"
      and "parseDiscoveryResult_B (JStr s) = Inr devices"
      and "d \<in> set devices"
  shows "all_strings (\<lambda>v. ESC \<notin> set v) (obj_get d k)
       \<and> all_strings (\<lambda>v. \<not> containsAnsi v) (obj_get d k)"
proof -
  have "all_strings (\<lambda>v. ESC \<notin> set v) (obj_get d k)"
    using parse_B_esc_clean [OF assms] by (simp add: esc_clean_def)
  moreover from this have "all_strings (\<lambda>v. \<not> containsAnsi v) (obj_get d k)"
    by (rule all_strings_mono [rotated]) (auto dest: containsAnsi_ESC)
  ultimately show ?thesis by simp
qed

theorem escape_free_fields_witness:
  "well_escaped coloured_input \<and> containsAnsi coloured_input
   \<and> parseDiscoveryResult_B (JStr coloured_input) = Inr [coloured_B]
   \<and> obj_get coloured_B ''name'' = JStr ''light1''
   \<and> all_strings (\<lambda>v. ESC \<notin> set v) (obj_get coloured_B ''name'')
   \<and> all_strings (\<lambda>v. \<not> containsAnsi v) (obj_get coloured_B ''name'')"
proof -
  have m: "coloured_B \<in> set [coloured_B]" by simp
  have n: "obj_get coloured_B ''name'' = JStr ''light1''"
    by (simp add: coloured_B_def obj_get_obj_set)
  from escape_free_fields [OF coloured_well_escaped parse_B_coloured m, of "''name''"]
    coloured_well_escaped coloured_has_sequences(1) parse_B_coloured n
  show ?thesis by simp
qed

end
